theory Spec2Isabelle
  imports Complex_Main "HOL-Library.Log_Nat"
begin

section \<open>The number type of the source language\<close>

text \<open>
  The library stores and computes with the \<^verbatim>\<open>number\<close> type of TypeScript, the IEEE 754
  binary64 format.  A value is not-a-number, one of the two infinities, negative zero, or a
  finite value; a finite value is carried by the rational it denotes (\<open>Num 0\<close> is positive
  zero).  The arithmetic operators compute the exact rational result and round it to the
  nearest representable value, ties to even, as the language standard prescribes.
\<close>

datatype number = NaN | PosInf | NegInf | NegZero | Num rat

subsection \<open>Rounding to the nearest binary64 value\<close>

text \<open>\<open>ilog2 a\<close> is the integer \<open>k\<close> with \<open>2^k \<le> a < 2^(k+1)\<close>, for positive \<open>a\<close>.\<close>

definition ilog2 :: "rat \<Rightarrow> int" where
  "ilog2 a = (if 1 \<le> a then bitlen \<lfloor>a\<rfloor> - 1 else - bitlen (\<lceil>1 / a\<rceil> - 1))"

text \<open>The exponent of the unit in the last place: 53 significant bits, least exponent -1074.\<close>

definition ulp_exp :: "rat \<Rightarrow> int" where
  "ulp_exp a = max (- 1074) (ilog2 a - 52)"

definition round_half_even :: "rat \<Rightarrow> int" where
  "round_half_even q =
     (let f = \<lfloor>q\<rfloor>; d = q - of_int f
      in if d < 1 / 2 then f
         else if 1 / 2 < d then f + 1
         else if even f then f else f + 1)"

text \<open>The largest finite value, \<open>(2^53 - 1) * 2^971\<close>.\<close>

definition MAX_VALUE :: rat where
  "MAX_VALUE = (2 ^ 53 - 1) * 2 ^ 971"

text \<open>The magnitude of a positive rational after rounding (possibly beyond \<open>MAX_VALUE\<close>).\<close>

definition round_mag :: "rat \<Rightarrow> rat" where
  "round_mag a = of_int (round_half_even (a / 2 powi ulp_exp a)) * 2 powi ulp_exp a"

definition round_to_double :: "rat \<Rightarrow> number" where
  "round_to_double r =
     (if r = 0 then Num 0
      else let v = round_mag \<bar>r\<bar>
           in if MAX_VALUE < v then (if r < 0 then NegInf else PosInf)
              else if v = 0 then (if r < 0 then NegZero else Num 0)
              else Num (if r < 0 then - v else v))"

text \<open>A finite value is a binary64 value when rounding leaves it unchanged.\<close>

definition is_double :: "rat \<Rightarrow> bool" where
  "is_double r \<longleftrightarrow> round_to_double r = Num r"

fun is_number :: "number \<Rightarrow> bool" where
  "is_number (Num r) = is_double r"
| "is_number _ = True"

subsection \<open>Classification and comparison\<close>

text \<open>\<^verbatim>\<open>Number.isFinite\<close>.\<close>

fun isFinite :: "number \<Rightarrow> bool" where
  "isFinite (Num r) = True"
| "isFinite NegZero = True"
| "isFinite _ = False"

text \<open>The mathematical value of a finite number (both zeros denote 0).\<close>

fun val :: "number \<Rightarrow> rat" where
  "val (Num r) = r"
| "val _ = 0"

text \<open>The sign bit.\<close>

fun is_neg :: "number \<Rightarrow> bool" where
  "is_neg (Num r) = (r < 0)"
| "is_neg NegZero = True"
| "is_neg NegInf = True"
| "is_neg _ = False"

fun is_inf :: "number \<Rightarrow> bool" where
  "is_inf PosInf = True"
| "is_inf NegInf = True"
| "is_inf _ = False"

definition is_zero :: "number \<Rightarrow> bool" where
  "is_zero x \<longleftrightarrow> isFinite x \<and> val x = 0"

definition inf_of :: "bool \<Rightarrow> number" where
  "inf_of neg = (if neg then NegInf else PosInf)"

definition zero_of :: "bool \<Rightarrow> number" where
  "zero_of neg = (if neg then NegZero else Num 0)"

text \<open>Position on the extended line: -1 for \<open>-Infinity\<close>, 0 for finite values, 1 for \<open>Infinity\<close>.\<close>

fun rank :: "number \<Rightarrow> int" where
  "rank PosInf = 1"
| "rank NegInf = - 1"
| "rank _ = 0"

text \<open>The operators \<^verbatim>\<open><\<close>, \<^verbatim>\<open><=\<close>, \<^verbatim>\<open>>\<close>, \<^verbatim>\<open>>=\<close> and \<^verbatim>\<open>===\<close> on numbers: every comparison with
  not-a-number is false, and the two zeros are equal.\<close>

definition js_lt :: "number \<Rightarrow> number \<Rightarrow> bool" where
  "js_lt x y \<longleftrightarrow> x \<noteq> NaN \<and> y \<noteq> NaN \<and> (rank x < rank y \<or> rank x = rank y \<and> val x < val y)"

definition js_eq :: "number \<Rightarrow> number \<Rightarrow> bool" where
  "js_eq x y \<longleftrightarrow> x \<noteq> NaN \<and> y \<noteq> NaN \<and> rank x = rank y \<and> val x = val y"

definition js_le :: "number \<Rightarrow> number \<Rightarrow> bool" where
  "js_le x y \<longleftrightarrow> js_lt x y \<or> js_eq x y"

definition js_gt :: "number \<Rightarrow> number \<Rightarrow> bool" where
  "js_gt x y \<longleftrightarrow> js_lt y x"

definition js_ge :: "number \<Rightarrow> number \<Rightarrow> bool" where
  "js_ge x y \<longleftrightarrow> js_le y x"

subsection \<open>Arithmetic\<close>

definition js_neg :: "number \<Rightarrow> number" where
  "js_neg x = (case x of NaN \<Rightarrow> NaN | PosInf \<Rightarrow> NegInf | NegInf \<Rightarrow> PosInf
                | NegZero \<Rightarrow> Num 0 | Num r \<Rightarrow> (if r = 0 then NegZero else Num (- r)))"

text \<open>The operator \<^verbatim>\<open>*\<close>.\<close>

definition js_mul :: "number \<Rightarrow> number \<Rightarrow> number" where
  "js_mul x y =
     (if x = NaN \<or> y = NaN then NaN
      else if is_inf x \<or> is_inf y then
        (if is_zero x \<or> is_zero y then NaN else inf_of (is_neg x \<noteq> is_neg y))
      else if is_zero x \<or> is_zero y then zero_of (is_neg x \<noteq> is_neg y)
      else round_to_double (val x * val y))"

text \<open>The operator \<^verbatim>\<open>/\<close>.\<close>

definition js_div :: "number \<Rightarrow> number \<Rightarrow> number" where
  "js_div x y =
     (if x = NaN \<or> y = NaN then NaN
      else if is_inf x then (if is_inf y then NaN else inf_of (is_neg x \<noteq> is_neg y))
      else if is_inf y then zero_of (is_neg x \<noteq> is_neg y)
      else if is_zero y then (if is_zero x then NaN else inf_of (is_neg x \<noteq> is_neg y))
      else if is_zero x then zero_of (is_neg x \<noteq> is_neg y)
      else round_to_double (val x / val y))"

text \<open>The operator \<^verbatim>\<open>+\<close>: an exact sum of zero is positive zero unless both operands are
  negative zero.\<close>

definition js_add :: "number \<Rightarrow> number \<Rightarrow> number" where
  "js_add x y =
     (if x = NaN \<or> y = NaN then NaN
      else if is_inf x then (if is_inf y \<and> x \<noteq> y then NaN else x)
      else if is_inf y then y
      else if val x + val y = 0 then (if x = NegZero \<and> y = NegZero then NegZero else Num 0)
      else round_to_double (val x + val y))"

text \<open>The operator \<^verbatim>\<open>-\<close>.\<close>

definition js_sub :: "number \<Rightarrow> number \<Rightarrow> number" where
  "js_sub x y = js_add x (js_neg y)"

text \<open>Truncation of a rational toward zero.\<close>

definition trunc :: "rat \<Rightarrow> int" where
  "trunc q = (if 0 \<le> q then \<lfloor>q\<rfloor> else \<lceil>q\<rceil>)"

text \<open>The operator \<^verbatim>\<open>%\<close>: the remainder of the truncating division, with the sign of the
  dividend; it is exact.\<close>

definition js_mod :: "number \<Rightarrow> number \<Rightarrow> number" where
  "js_mod n d =
     (if n = NaN \<or> d = NaN then NaN
      else if is_inf n then NaN
      else if is_inf d then n
      else if is_zero d then NaN
      else if is_zero n then n
      else let r = val n - val d * of_int (trunc (val n / val d))
           in if r = 0 then zero_of (is_neg n) else Num r)"

text \<open>\<^verbatim>\<open>Math.max\<close> and \<^verbatim>\<open>Math.min\<close> of two arguments: not-a-number is contagious, and
  negative zero counts as smaller than positive zero.\<close>

definition Math_max :: "number \<Rightarrow> number \<Rightarrow> number" where
  "Math_max x y =
     (if x = NaN \<or> y = NaN then NaN
      else if js_lt x y then y
      else if js_lt y x then x
      else if x = NegZero then y else x)"

definition Math_min :: "number \<Rightarrow> number \<Rightarrow> number" where
  "Math_min x y =
     (if x = NaN \<or> y = NaN then NaN
      else if js_lt x y then x
      else if js_lt y x then y
      else if x = NegZero then x else y)"

text \<open>\<^verbatim>\<open>Number.isInteger\<close>.\<close>

definition isInteger :: "number \<Rightarrow> bool" where
  "isInteger x \<longleftrightarrow> isFinite x \<and> of_int \<lfloor>val x\<rfloor> = val x"

subsection \<open>Conversion to and from decimal strings\<close>

text \<open>The number of decimal digits of a positive integer.\<close>

function decimal_length :: "int \<Rightarrow> int" where
  "decimal_length n = (if n < 10 then 1 else 1 + decimal_length (n div 10))"
  by pat_completeness auto
termination
  by (relation "measure nat") auto

declare decimal_length.simps [simp del]

text \<open>\<open>ilog10 a\<close> is the integer \<open>t\<close> with \<open>10^t \<le> a < 10^(t+1)\<close>, for positive \<open>a\<close>.\<close>

definition ilog10 :: "rat \<Rightarrow> int" where
  "ilog10 a = (if 1 \<le> a then decimal_length \<lfloor>a\<rfloor> - 1
               else - decimal_length (\<lceil>1 / a\<rceil> - 1))"

definition digit_char :: "int \<Rightarrow> char" where
  "digit_char d = ''0123456789'' ! nat d"

text \<open>The decimal digits of a non-negative integer.\<close>

function digits_of :: "int \<Rightarrow> string" where
  "digits_of n =
     (if n < 10 then [digit_char n]
      else digits_of (n div 10) @ [digit_char (n mod 10)])"
  by pat_completeness auto
termination
  by (relation "measure nat") auto

declare digits_of.simps [simp del]

text \<open>
  \<^verbatim>\<open>Number::toString\<close> in radix 10 writes a positive finite value \<open>r\<close> with the digits of
  an integer \<open>s\<close> of \<open>k\<close> digits and a decimal exponent \<open>n\<close> such that \<open>s * 10^(n - k)\<close>
  rounds to \<open>r\<close>, with \<open>k\<close> as small as possible and, among those, \<open>s * 10^(n - k)\<close> closest
  to \<open>r\<close>.  \<open>digit_candidates r k\<close> lists the pairs \<open>(n, s)\<close> with \<open>k\<close> digits that round to
  \<open>r\<close>.
\<close>

definition digit_candidates :: "rat \<Rightarrow> nat \<Rightarrow> (int \<times> int) list" where
  "digit_candidates r k =
     [(n, s). n \<leftarrow> [ilog10 r + 1, ilog10 r + 2],
              s \<leftarrow> [\<lfloor>r / 10 powi (n - int k)\<rfloor>, \<lfloor>r / 10 powi (n - int k)\<rfloor> + 1],
              10 ^ (k - 1) \<le> s \<and> s < 10 ^ k
                \<and> round_to_double (of_int s * 10 powi (n - int k)) = Num r]"

definition digit_error :: "rat \<Rightarrow> nat \<Rightarrow> int \<times> int \<Rightarrow> rat" where
  "digit_error r k c = \<bar>of_int (snd c) * 10 powi (fst c - int k) - r\<bar>"

fun best_candidate :: "rat \<Rightarrow> nat \<Rightarrow> int \<times> int \<Rightarrow> (int \<times> int) list \<Rightarrow> int \<times> int" where
  "best_candidate r k c [] = c"
| "best_candidate r k c (c' # cs) =
     best_candidate r k
       (if digit_error r k c' < digit_error r k c
           \<or> digit_error r k c' = digit_error r k c \<and> even (snd c') then c' else c) cs"

text \<open>Seventeen significant digits determine every binary64 value, so the search for the
  shortest digit string stops there with the nearest decimal of seventeen digits.\<close>

fun shortest_digits :: "rat \<Rightarrow> nat \<Rightarrow> nat \<Rightarrow> nat \<times> int \<times> int" where
  "shortest_digits r k 0 =
     (k, ilog10 r + 1, round_half_even (r / 10 powi (ilog10 r + 1 - int k)))"
| "shortest_digits r k (Suc fuel) =
     (case digit_candidates r k of
        [] \<Rightarrow> shortest_digits r (Suc k) fuel
      | c # cs \<Rightarrow> (k, best_candidate r k c cs))"

definition format_digits :: "nat \<Rightarrow> int \<Rightarrow> int \<Rightarrow> string" where
  "format_digits k n s =
     (let ds = digits_of s
      in if int k \<le> n \<and> n \<le> 21 then ds @ replicate (nat (n - int k)) (CHR ''0'')
         else if 0 < n \<and> n \<le> 21 then take (nat n) ds @ ''.'' @ drop (nat n) ds
         else if - 6 < n \<and> n \<le> 0 then ''0.'' @ replicate (nat (- n)) (CHR ''0'') @ ds
         else (if k = 1 then ds else take 1 ds @ ''.'' @ drop 1 ds)
                @ ''e'' @ (if n - 1 < 0 then ''-'' else ''+'') @ digits_of \<bar>n - 1\<bar>)"

definition positive_toString :: "rat \<Rightarrow> string" where
  "positive_toString r = (case shortest_digits r 1 16 of (k, n, s) \<Rightarrow> format_digits k n s)"

text \<open>The conversion of a number to a string, as a template literal performs it.\<close>

definition Number_toString :: "number \<Rightarrow> string" where
  "Number_toString x =
     (case x of
        NaN \<Rightarrow> ''NaN''
      | PosInf \<Rightarrow> ''Infinity''
      | NegInf \<Rightarrow> ''-Infinity''
      | NegZero \<Rightarrow> ''0''
      | Num r \<Rightarrow> (if r = 0 then ''0''
                   else if r < 0 then ''-'' @ positive_toString (- r)
                   else positive_toString r))"

text \<open>
  \<^verbatim>\<open>Number(x.toFixed(f))\<close>: \<^verbatim>\<open>toFixed\<close> writes the integer \<open>n\<close> for which \<open>n / 10^f\<close> is
  closest to the magnitude of \<open>x\<close> (the larger one of two) with \<open>f\<close> decimals, or the plain
  string of \<open>x\<close> when \<open>x\<close> is not finite or at least \<open>10^21\<close> in magnitude; \<^verbatim>\<open>Number\<close> reads
  the decimal string back as the nearest number.
\<close>

definition Number_toFixed :: "nat \<Rightarrow> number \<Rightarrow> number" where
  "Number_toFixed f x =
     (case x of
        Num r \<Rightarrow>
          (if 10 ^ 21 \<le> \<bar>r\<bar> then x
           else let n = \<lfloor>\<bar>r\<bar> * 10 ^ f + 1 / 2\<rfloor>
                in if n = 0 then zero_of (r < 0)
                   else round_to_double ((if r < 0 then - 1 else 1) * of_int n / 10 ^ f))
      | NegZero \<Rightarrow> Num 0
      | _ \<Rightarrow> x)"

section \<open>The validator\<close>

text \<open>Every error of the library is a \<^verbatim>\<open>RangeError\<close> carrying a message.\<close>

datatype error = RangeError string

text \<open>
  \<^verbatim>\<open>toPositive\<close> throws when the value is not finite and otherwise clamps it at zero:
  \<^verbatim>\<open>num <= 0 ? 0 : num\<close>.
\<close>

definition toPositive :: "number \<Rightarrow> error + number" where
  "toPositive num =
     (if \<not> isFinite num then Inl (RangeError ''Value must be finite'')
      else Inr (if js_le num (Num 0) then Num 0 else num))"

section \<open>Duration\<close>

record Duration =
  nanoseconds :: number

definition NS_PER_MICRO :: number where
  "NS_PER_MICRO = Num 1000"

definition NS_PER_MILLI :: number where
  "NS_PER_MILLI = Num 1000000"

definition NS_PER_SECOND :: number where
  "NS_PER_SECOND = Num 1000000000"

definition NS_PER_MINUTE :: number where
  "NS_PER_MINUTE = js_mul (Num 60) NS_PER_SECOND"

definition NS_PER_HOUR :: number where
  "NS_PER_HOUR = js_mul (Num 60) NS_PER_MINUTE"

text \<open>\<^verbatim>\<open>new Duration(toPositive(v))\<close>: the private constructor applied to a validated value; an
  exception of the validator propagates.\<close>

definition new_Duration :: "number \<Rightarrow> error + Duration" where
  "new_Duration v =
     (case toPositive v of Inl e \<Rightarrow> Inl e | Inr p \<Rightarrow> Inr \<lparr>nanoseconds = p\<rparr>)"

definition ZERO :: "error + Duration" where
  "ZERO = new_Duration (Num 0)"

subsection \<open>Constructors\<close>

definition fromNanos :: "number \<Rightarrow> error + Duration" where
  "fromNanos nanos = new_Duration nanos"

definition fromMicros :: "number \<Rightarrow> error + Duration" where
  "fromMicros micros = new_Duration (js_mul micros NS_PER_MICRO)"

definition fromMillis :: "number \<Rightarrow> error + Duration" where
  "fromMillis millis = new_Duration (js_mul millis NS_PER_MILLI)"

definition fromSecs :: "number \<Rightarrow> error + Duration" where
  "fromSecs secs = new_Duration (js_mul secs NS_PER_SECOND)"

definition fromMinutes :: "number \<Rightarrow> error + Duration" where
  "fromMinutes minutes = new_Duration (js_mul minutes NS_PER_MINUTE)"

definition fromHours :: "number \<Rightarrow> error + Duration" where
  "fromHours hours = new_Duration (js_mul hours NS_PER_HOUR)"

subsection \<open>Observers\<close>

definition asNanos :: "Duration \<Rightarrow> number" where
  "asNanos this = nanoseconds this"

definition asMicros :: "Duration \<Rightarrow> number" where
  "asMicros this = js_div (nanoseconds this) NS_PER_MICRO"

definition asMillis :: "Duration \<Rightarrow> number" where
  "asMillis this = js_div (nanoseconds this) NS_PER_MILLI"

definition asSecs :: "Duration \<Rightarrow> number" where
  "asSecs this = js_div (nanoseconds this) NS_PER_SECOND"

definition asMinutes :: "Duration \<Rightarrow> number" where
  "asMinutes this = js_div (nanoseconds this) NS_PER_MINUTE"

definition asHours :: "Duration \<Rightarrow> number" where
  "asHours this = js_div (nanoseconds this) NS_PER_HOUR"

subsection \<open>Arithmetic\<close>

definition add :: "Duration \<Rightarrow> Duration \<Rightarrow> error + Duration" where
  "add this other = new_Duration (js_add (nanoseconds this) (nanoseconds other))"

definition sub :: "Duration \<Rightarrow> Duration \<Rightarrow> error + Duration" where
  "sub this other = new_Duration (js_sub (nanoseconds this) (nanoseconds other))"

definition mul :: "Duration \<Rightarrow> number \<Rightarrow> error + Duration" where
  "mul this factor = new_Duration (js_mul (nanoseconds this) factor)"

definition div_by :: "Duration \<Rightarrow> number \<Rightarrow> error + Duration" where
  "div_by this divisor =
     (if js_eq divisor (Num 0) then Inl (RangeError ''Division by zero'')
      else new_Duration (js_div (nanoseconds this) divisor))"

subsection \<open>Comparisons\<close>

definition eq :: "Duration \<Rightarrow> Duration \<Rightarrow> bool" where
  "eq this other = js_eq (nanoseconds this) (nanoseconds other)"

definition lt :: "Duration \<Rightarrow> Duration \<Rightarrow> bool" where
  "lt this other = js_lt (nanoseconds this) (nanoseconds other)"

definition le :: "Duration \<Rightarrow> Duration \<Rightarrow> bool" where
  "le this other = js_le (nanoseconds this) (nanoseconds other)"

definition gt :: "Duration \<Rightarrow> Duration \<Rightarrow> bool" where
  "gt this other = js_gt (nanoseconds this) (nanoseconds other)"

definition ge :: "Duration \<Rightarrow> Duration \<Rightarrow> bool" where
  "ge this other = js_ge (nanoseconds this) (nanoseconds other)"

subsection \<open>Utilities\<close>

definition isZero :: "Duration \<Rightarrow> bool" where
  "isZero this = js_eq (nanoseconds this) (Num 0)"

definition clamp :: "Duration \<Rightarrow> Duration \<Rightarrow> Duration \<Rightarrow> error + Duration" where
  "clamp this mn mx =
     (if gt mn mx then Inl (RangeError ''min must be <= max'')
      else new_Duration
             (Math_min (Math_max (nanoseconds this) (nanoseconds mn)) (nanoseconds mx)))"

text \<open>The local function \<^verbatim>\<open>round\<close> of \<^verbatim>\<open>toString\<close>:
  \<^verbatim>\<open>Number.isInteger(n) ? n : Number(n.toFixed(6))\<close>.\<close>

definition round_n :: "number \<Rightarrow> number" where
  "round_n n = (if isInteger n then n else Number_toFixed 6 n)"

text \<open>The suffix of the microsecond branch, as the code units of the source's literal.\<close>

definition micro_suffix :: string where
  "micro_suffix = [CHR 0xC2, CHR 0xB5, CHR ''s'']"

definition toString :: "Duration \<Rightarrow> string" where
  "toString this =
     (if js_eq (js_mod (nanoseconds this) NS_PER_HOUR) (Num 0)
        then Number_toString (round_n (asHours this)) @ ''h''
      else if js_eq (js_mod (nanoseconds this) NS_PER_MINUTE) (Num 0)
        then Number_toString (round_n (asMinutes this)) @ ''m''
      else if js_eq (js_mod (nanoseconds this) NS_PER_SECOND) (Num 0)
        then Number_toString (round_n (asSecs this)) @ ''s''
      else if js_eq (js_mod (nanoseconds this) NS_PER_MILLI) (Num 0)
        then Number_toString (round_n (asMillis this)) @ ''ms''
      else if js_eq (js_mod (nanoseconds this) NS_PER_MICRO) (Num 0)
        then Number_toString (round_n (asMicros this)) @ micro_suffix
      else Number_toString (nanoseconds this) @ ''ns'')"

section \<open>Notions used by the properties\<close>

text \<open>An exact result overflows when it rounds to an infinity: its magnitude is at least
  \<open>2^1024 - 2^970\<close>, half a unit in the last place above the largest finite value.\<close>

definition overflows :: "rat \<Rightarrow> bool" where
  "overflows r \<longleftrightarrow> 2 ^ 1024 - 2 ^ 970 \<le> \<bar>r\<bar>"

text \<open>The invariant of the type: the count is a finite, non-negative binary64 value.\<close>

definition valid_Duration :: "Duration \<Rightarrow> bool" where
  "valid_Duration d =
     (case nanoseconds d of Num r \<Rightarrow> 0 \<le> r \<and> is_double r | _ \<Rightarrow> False)"

text \<open>
  The durations a caller can obtain: the constant, the six constructors applied to any
  number, and the results of the arithmetic operations and of \<^verbatim>\<open>clamp\<close> on durations
  obtained before.  An operation that throws yields no duration.
\<close>

inductive reachable :: "Duration \<Rightarrow> bool" where
  r_ZERO: "ZERO = Inr d \<Longrightarrow> reachable d"
| r_fromNanos: "is_number x \<Longrightarrow> fromNanos x = Inr d \<Longrightarrow> reachable d"
| r_fromMicros: "is_number x \<Longrightarrow> fromMicros x = Inr d \<Longrightarrow> reachable d"
| r_fromMillis: "is_number x \<Longrightarrow> fromMillis x = Inr d \<Longrightarrow> reachable d"
| r_fromSecs: "is_number x \<Longrightarrow> fromSecs x = Inr d \<Longrightarrow> reachable d"
| r_fromMinutes: "is_number x \<Longrightarrow> fromMinutes x = Inr d \<Longrightarrow> reachable d"
| r_fromHours: "is_number x \<Longrightarrow> fromHours x = Inr d \<Longrightarrow> reachable d"
| r_add: "reachable a \<Longrightarrow> reachable b \<Longrightarrow> add a b = Inr d \<Longrightarrow> reachable d"
| r_sub: "reachable a \<Longrightarrow> reachable b \<Longrightarrow> sub a b = Inr d \<Longrightarrow> reachable d"
| r_mul: "reachable a \<Longrightarrow> is_number k \<Longrightarrow> mul a k = Inr d \<Longrightarrow> reachable d"
| r_div: "reachable a \<Longrightarrow> is_number k \<Longrightarrow> div_by a k = Inr d \<Longrightarrow> reachable d"
| r_clamp: "reachable a \<Longrightarrow> reachable mn \<Longrightarrow> reachable mx \<Longrightarrow> clamp a mn mx = Inr d
            \<Longrightarrow> reachable d"

text \<open>
  The display format in the words of its description: the units from the largest to the
  smallest with their scale factors and short codes; a unit divides a count evenly when the
  remainder is zero; the chosen unit is the first in the descending scan that divides
  evenly; the magnitude in the chosen unit, or the raw count of nanoseconds when there is
  none, is rounded to 6 decimal places when it is not an integer and followed by the short
  code.
\<close>

datatype unit_name = Hour | Minute | Second | Milli | Micro

fun scale_factor :: "unit_name \<Rightarrow> number" where
  "scale_factor Hour = NS_PER_HOUR"
| "scale_factor Minute = NS_PER_MINUTE"
| "scale_factor Second = NS_PER_SECOND"
| "scale_factor Milli = NS_PER_MILLI"
| "scale_factor Micro = NS_PER_MICRO"

fun short_code :: "unit_name \<Rightarrow> string" where
  "short_code Hour = ''h''"
| "short_code Minute = ''m''"
| "short_code Second = ''s''"
| "short_code Milli = ''ms''"
| "short_code Micro = micro_suffix"

definition divides_evenly :: "Duration \<Rightarrow> unit_name \<Rightarrow> bool" where
  "divides_evenly d u \<longleftrightarrow> js_eq (js_mod (nanoseconds d) (scale_factor u)) (Num 0)"

definition chosen_unit :: "Duration \<Rightarrow> unit_name option" where
  "chosen_unit d = find (divides_evenly d) [Hour, Minute, Second, Milli, Micro]"

text \<open>The display string as described, to be compared with \<^verbatim>\<open>toString\<close> of the source.\<close>

definition toString_spec :: "Duration \<Rightarrow> string" where
  "toString_spec d =
     (case chosen_unit d of
        Some u \<Rightarrow> Number_toString (round_n (js_div (nanoseconds d) (scale_factor u))) @ short_code u
      | None \<Rightarrow> Number_toString (round_n (nanoseconds d)) @ ''ns'')"

section \<open>Properties of rounding\<close>

lemma powi_nonneg_eq: "0 \<le> k \<Longrightarrow> (2::rat) powi k = 2 ^ nat k"
  by (simp add: power_int_def)

lemma ilog2_bounds_ge1:
  assumes "1 \<le> a"
  shows "2 powi (ilog2 a) \<le> a \<and> a < 2 powi (ilog2 a + 1)"
proof -
  let ?n = "\<lfloor>a\<rfloor>"
  have n: "0 < ?n" using assms by simp
  have b: "2 ^ nat (bitlen ?n - 1) \<le> ?n" "?n < 2 ^ nat (bitlen ?n)"
    using bitlen_bounds[OF n] by auto
  have bl: "1 \<le> bitlen ?n" using n by (simp add: bitlen_alt_def)
  have k: "ilog2 a = bitlen ?n - 1" using assms by (simp add: ilog2_def)
  have "(2::rat) powi (ilog2 a) = of_int (2 ^ nat (bitlen ?n - 1))"
    using bl by (simp add: k power_int_def)
  also have "\<dots> \<le> of_int ?n" using b(1) by (simp only: of_int_le_iff)
  also have "\<dots> \<le> a" by simp
  finally have lo: "2 powi (ilog2 a) \<le> a" .
  have "?n + 1 \<le> 2 ^ nat (bitlen ?n)" using b(2) by simp
  then have "(of_int (?n + 1) :: rat) \<le> of_int (2 ^ nat (bitlen ?n))"
    by (simp only: of_int_le_iff)
  moreover have "a < of_int (?n + 1)" by simp linarith
  moreover have "(2::rat) powi (ilog2 a + 1) = of_int (2 ^ nat (bitlen ?n))"
    using bl by (simp add: k power_int_def)
  ultimately have "a < 2 powi (ilog2 a + 1)" by simp
  with lo show ?thesis by simp
qed

lemma ilog2_bounds_lt1:
  assumes "0 < a" "a < 1"
  shows "2 powi (ilog2 a) \<le> a \<and> a < 2 powi (ilog2 a + 1)"
proof -
  let ?b = "1 / a"
  let ?m = "\<lceil>?b\<rceil> - 1"
  have b1: "1 < ?b" using assms by simp
  have m: "0 < ?m" using b1 by simp
  have bb: "2 ^ nat (bitlen ?m - 1) \<le> ?m" "?m < 2 ^ nat (bitlen ?m)"
    using bitlen_bounds[OF m] by auto
  have bl: "1 \<le> bitlen ?m" using m by (simp add: bitlen_alt_def)
  have k: "ilog2 a = - bitlen ?m" using assms by (simp add: ilog2_def)
  have up: "?b \<le> 2 ^ nat (bitlen ?m)"
  proof -
    have h: "\<lceil>?b\<rceil> \<le> 2 ^ nat (bitlen ?m)" using bb(2) by simp
    have "?b \<le> of_int \<lceil>?b\<rceil>" by (rule le_of_int_ceiling)
    also have "\<dots> \<le> of_int (2 ^ nat (bitlen ?m))" using h by (simp only: of_int_le_iff)
    also have "\<dots> = 2 ^ nat (bitlen ?m)" by simp
    finally show ?thesis .
  qed
  have lo: "2 ^ nat (bitlen ?m - 1) < ?b"
  proof -
    have "(2::rat) ^ nat (bitlen ?m - 1) = of_int (2 ^ nat (bitlen ?m - 1))" by simp
    also have "\<dots> \<le> of_int ?m" using bb(1) by (simp only: of_int_le_iff)
    also have "\<dots> < ?b" by linarith
    finally show ?thesis .
  qed
  have p1: "(2::rat) powi (ilog2 a) = 1 / 2 ^ nat (bitlen ?m)"
    using bl by (simp add: k power_int_def field_simps)
  have p2: "(2::rat) powi (ilog2 a + 1) = 1 / 2 ^ nat (bitlen ?m - 1)"
  proof (cases "bitlen ?m = 1")
    case True then show ?thesis by (simp add: k)
  next
    case False
    then have "ilog2 a + 1 < 0" using bl k by simp
    then show ?thesis using bl k by (simp add: power_int_def field_simps nat_diff_distrib)
  qed
  have "1 / 2 ^ nat (bitlen ?m) \<le> a"
    using up assms(1) by (simp add: field_simps)
  moreover have "a < 1 / 2 ^ nat (bitlen ?m - 1)"
    using lo assms(1) by (simp add: field_simps)
  ultimately show ?thesis using p1 p2 by simp
qed

lemma ilog2_bounds:
  "0 < a \<Longrightarrow> 2 powi (ilog2 a) \<le> a \<and> a < 2 powi (ilog2 a + 1)"
  using ilog2_bounds_ge1 ilog2_bounds_lt1 by (cases "1 \<le> a") auto

lemma ilog2_less: "0 < a \<Longrightarrow> a < 2 powi n \<Longrightarrow> ilog2 a < n"
proof (rule ccontr)
  assume a: "0 < a" "a < 2 powi n" and "\<not> ilog2 a < n"
  then have "(2::rat) powi n \<le> 2 powi (ilog2 a)"
    by (intro power_int_increasing) auto
  with ilog2_bounds[OF a(1)] a(2) show False by linarith
qed

lemma ilog2_ge: "0 < a \<Longrightarrow> 2 powi n \<le> a \<Longrightarrow> n \<le> ilog2 a"
proof (rule ccontr)
  assume a: "0 < a" "2 powi n \<le> a" and "\<not> n \<le> ilog2 a"
  then have "(2::rat) powi (ilog2 a + 1) \<le> 2 powi n"
    by (intro power_int_increasing) auto
  with ilog2_bounds[OF a(1)] a(2) show False by linarith
qed

lemma round_half_even_error: "\<bar>of_int (round_half_even q) - q\<bar> \<le> 1 / 2"
proof -
  have "of_int \<lfloor>q\<rfloor> \<le> q" "q < of_int \<lfloor>q\<rfloor> + 1" by linarith+
  then show ?thesis
    by (auto simp: round_half_even_def Let_def abs_le_iff)
qed

lemma round_half_even_of_int [simp]: "round_half_even (of_int n) = n"
  by (simp add: round_half_even_def)

lemma round_half_even_le: "q \<le> of_int n \<Longrightarrow> round_half_even q \<le> n"
proof -
  assume h: "q \<le> of_int n"
  then have f: "\<lfloor>q\<rfloor> \<le> n" by (simp add: floor_le_iff) 
  show ?thesis
  proof (cases "\<lfloor>q\<rfloor> = n")
    case True
    then have "q = of_int n" using h by (metis of_int_floor_le order_antisym)
    then show ?thesis by simp
  next
    case False
    then have "\<lfloor>q\<rfloor> + 1 \<le> n" using f by simp
    then show ?thesis by (auto simp: round_half_even_def Let_def)
  qed
qed

lemma round_half_even_ge: "of_int n \<le> q \<Longrightarrow> n \<le> round_half_even q"
proof -
  assume "of_int n \<le> q"
  then have "n \<le> \<lfloor>q\<rfloor>" by (simp add: le_floor_iff)
  then show ?thesis by (auto simp: round_half_even_def Let_def)
qed

lemma ulp_exp_ge: "- 1074 \<le> ulp_exp a"
  by (simp add: ulp_exp_def)

lemma ulp_exp_upper: "0 < a \<Longrightarrow> a < 2 powi (ulp_exp a + 53)"
proof -
  assume a: "0 < a"
  have "a < 2 powi (ilog2 a + 1)" using ilog2_bounds[OF a] by simp
  also have "\<dots> \<le> 2 powi (ulp_exp a + 53)"
    by (intro power_int_increasing) (auto simp: ulp_exp_def)
  finally show ?thesis .
qed

lemma ulp_exp_lower: "0 < a \<Longrightarrow> - 1074 < ulp_exp a \<Longrightarrow> 2 powi (ulp_exp a + 52) \<le> a"
proof -
  assume a: "0 < a" and "- 1074 < ulp_exp a"
  then have "ulp_exp a = ilog2 a - 52" by (simp add: ulp_exp_def max_def split: if_splits)
  then show ?thesis using ilog2_bounds[OF a] by simp
qed

lemma scaled_less: "0 < a \<Longrightarrow> a / 2 powi ulp_exp a < 2 ^ 53"
proof -
  assume a: "0 < a"
  have "a < 2 powi (ulp_exp a + 53)" by (rule ulp_exp_upper[OF a])
  also have "\<dots> = 2 powi ulp_exp a * 2 ^ 53" by (simp add: power_int_add)
  finally show ?thesis by (simp add: field_simps)
qed

lemma round_mag_nonneg: "0 < a \<Longrightarrow> 0 \<le> round_mag a"
proof -
  assume a: "0 < a"
  have "(of_int 0 :: rat) \<le> a / 2 powi ulp_exp a" using a by simp
  then have "0 \<le> round_half_even (a / 2 powi ulp_exp a)" by (rule round_half_even_ge)
  then show ?thesis by (simp add: round_mag_def)
qed

lemma abs_scale: "0 < p \<Longrightarrow> \<bar>m * p - a\<bar> = \<bar>m - a / p\<bar> * (p::rat)"
proof -
  assume p: "0 < p"
  have "\<bar>m - a / p\<bar> * p = \<bar>m - a / p\<bar> * \<bar>p\<bar>" using p by simp
  also have "\<dots> = \<bar>(m - a / p) * p\<bar>" by (simp only: abs_mult)
  also have "(m - a / p) * p = m * p - a" using p by (simp add: left_diff_distrib)
  finally show ?thesis by simp
qed

lemma round_mag_error: "0 < a \<Longrightarrow> \<bar>round_mag a - a\<bar> \<le> 2 powi (ulp_exp a) / 2"
proof -
  assume a: "0 < a"
  let ?p = "(2::rat) powi ulp_exp a"
  have p: "0 < ?p" by simp
  have "\<bar>round_mag a - a\<bar> = \<bar>of_int (round_half_even (a / ?p)) - a / ?p\<bar> * ?p"
    unfolding round_mag_def by (rule abs_scale[OF p])
  also have "\<dots> \<le> (1 / 2) * ?p"
    using round_half_even_error[of "a / ?p"] p by (intro mult_right_mono) auto
  finally show ?thesis by simp
qed

lemma round_mag_exact:
  "a / 2 powi ulp_exp a = of_int m \<Longrightarrow> round_mag a = a"
  by (simp add: round_mag_def) (metis nonzero_eq_divide_eq power_int_not_zero zero_neq_numeral)

lemma MAX_VALUE_pos: "0 < MAX_VALUE"
  by (simp add: MAX_VALUE_def)

lemma MAX_VALUE_less: "MAX_VALUE < 2 ^ 1024"
proof -
  have "MAX_VALUE = 2 ^ 1024 - 2 ^ 971"
    by (simp add: MAX_VALUE_def left_diff_distrib power_add[symmetric])
  then show ?thesis by simp
qed

lemma round_mag_overflow:
  assumes le: "2 ^ 1024 \<le> a"
  shows "MAX_VALUE < round_mag a"
proof -
  let ?e = "ulp_exp a"
  have a: "0 < a" using le by (rule less_le_trans[rotated]) simp
  have "2 powi 1024 \<le> a" using le by simp
  then have "1024 \<le> ilog2 a" by (rule ilog2_ge[OF a])
  then have e: "972 \<le> ?e" "- 1074 < ?e" by (simp_all add: ulp_exp_def)
  have "2 powi (?e + 52) \<le> a" by (rule ulp_exp_lower[OF a e(2)])
  then have "of_int (2 ^ 52) \<le> a / 2 powi ?e"
    by (simp add: power_int_add field_simps)
  then have "2 ^ 52 \<le> round_half_even (a / 2 powi ?e)" by (rule round_half_even_ge)
  then have "(of_int (2 ^ 52) :: rat) \<le> of_int (round_half_even (a / 2 powi ?e))"
    by (simp only: of_int_le_iff)
  then have "of_int (2 ^ 52) * 2 powi ?e \<le> round_mag a"
    unfolding round_mag_def by (intro mult_right_mono) auto
  moreover have "(2::rat) powi 1024 \<le> 2 powi (?e + 52)"
    using e by (intro power_int_increasing) auto
  moreover have "(2::rat) powi (?e + 52) = of_int (2 ^ 52) * 2 powi ?e"
    by (simp add: power_int_add)
  ultimately have "2 ^ 1024 \<le> round_mag a" by simp
  then show ?thesis using MAX_VALUE_less by simp
qed

lemma round_mag_repr:
  assumes m: "0 < m" "m \<le> 2 ^ 53" and e: "- 1074 \<le> e"
  shows "round_mag (of_int m * 2 powi e) = of_int m * 2 powi e"
proof -
  let ?v = "of_int m * (2::rat) powi e"
  have v: "0 < ?v" using m by simp
  have "\<exists>k. ?v / 2 powi ulp_exp ?v = of_int k"
  proof (cases "m = 2 ^ 53")
    case True
    then have veq: "?v = 2 powi (e + 53)" by (simp add: power_int_add)
    have "e + 53 \<le> ilog2 ?v" by (rule ilog2_ge[OF v]) (simp add: veq)
    moreover have "ilog2 ?v < e + 54" by (rule ilog2_less[OF v]) (simp add: veq power_int_add)
    ultimately have "ilog2 ?v = e + 53" by simp
    then have "ulp_exp ?v = e + 1" using e by (simp add: ulp_exp_def)
    then have "?v / 2 powi ulp_exp ?v = of_int (2 ^ 52)"
      by (simp add: True power_int_add)
    then show ?thesis by blast
  next
    case False
    then have "m < 2 ^ 53" using m by simp
    then have "(of_int m :: rat) < of_int (2 ^ 53)" by (simp only: of_int_less_iff)
    then have "?v < of_int (2 ^ 53) * 2 powi e" by (intro mult_strict_right_mono) auto
    also have "\<dots> = 2 powi (e + 53)" by (simp add: power_int_add)
    finally have "ilog2 ?v < e + 53" by (rule ilog2_less[OF v])
    then have le: "ulp_exp ?v \<le> e" using e by (simp add: ulp_exp_def)
    have "?v / 2 powi ulp_exp ?v = of_int m * (2 powi e / 2 powi ulp_exp ?v)" by simp
    also have "(2::rat) powi e / 2 powi ulp_exp ?v = 2 powi (e - ulp_exp ?v)"
      by (simp add: power_int_diff)
    also have "\<dots> = of_int (2 ^ nat (e - ulp_exp ?v))"
      using le by (simp add: power_int_def)
    finally have "?v / 2 powi ulp_exp ?v = of_int (m * 2 ^ nat (e - ulp_exp ?v))"
      by simp
    then show ?thesis by blast
  qed
  then show ?thesis using round_mag_exact by blast
qed

lemma round_mag_form:
  assumes a: "0 < a"
  shows "\<exists>m. 0 \<le> m \<and> m \<le> 2 ^ 53 \<and> round_mag a = of_int m * 2 powi ulp_exp a"
proof -
  let ?m = "round_half_even (a / 2 powi ulp_exp a)"
  have "(of_int 0 :: rat) \<le> a / 2 powi ulp_exp a" using a by simp
  then have "0 \<le> ?m" by (rule round_half_even_ge)
  moreover have "a / 2 powi ulp_exp a \<le> of_int (2 ^ 53)" using scaled_less[OF a] by simp
  then have "?m \<le> 2 ^ 53" by (rule round_half_even_le)
  ultimately show ?thesis by (auto simp: round_mag_def)
qed

lemma round_mag_idem: "0 < a \<Longrightarrow> round_mag (round_mag a) = round_mag a"
proof -
  assume a: "0 < a"
  obtain m where m: "0 \<le> m" "m \<le> 2 ^ 53" "round_mag a = of_int m * 2 powi ulp_exp a"
    using round_mag_form[OF a] by blast
  show ?thesis
  proof (cases "m = 0")
    case True
    then show ?thesis using m(3) by (simp add: round_mag_def round_half_even_def)
  next
    case False
    then have "0 < m" using m(1) by simp
    then show ?thesis using round_mag_repr[OF _ m(2) ulp_exp_ge, of "a"] m(3) by simp
  qed
qed

lemma round_to_double_zero [simp]: "round_to_double 0 = Num 0"
  by (simp add: round_to_double_def)

lemma is_double_zero [simp]: "is_double 0"
  by (simp add: is_double_def)

lemma round_to_double_pos:
  assumes "0 < r"
  shows "round_to_double r =
           (if MAX_VALUE < round_mag r then PosInf else Num (round_mag r))"
  using assms by (simp add: round_to_double_def Let_def)

lemma round_to_double_neg:
  assumes "r < 0"
  shows "round_to_double r =
           (if MAX_VALUE < round_mag (- r) then NegInf
            else if round_mag (- r) = 0 then NegZero else Num (- round_mag (- r)))"
  using assms by (simp add: round_to_double_def Let_def)

lemma round_to_double_Num_sign:
  "round_to_double r = Num v \<Longrightarrow> (0 \<le> r \<longrightarrow> 0 \<le> v) \<and> (r \<le> 0 \<longrightarrow> v \<le> 0)"
  using round_mag_nonneg[of "\<bar>r\<bar>"]
  by (auto simp: round_to_double_def Let_def split: if_splits)

lemma round_to_double_Num_bound:
  "round_to_double r = Num v \<Longrightarrow> \<bar>v\<bar> \<le> MAX_VALUE"
  using round_mag_nonneg[of "\<bar>r\<bar>"] MAX_VALUE_pos
  by (auto simp: round_to_double_def Let_def split: if_splits)

lemma is_double_bound: "is_double v \<Longrightarrow> \<bar>v\<bar> \<le> MAX_VALUE"
  unfolding is_double_def by (rule round_to_double_Num_bound)

lemma is_double_pos_iff:
  "0 < v \<Longrightarrow> is_double v \<longleftrightarrow> round_mag v = v \<and> v \<le> MAX_VALUE"
  by (auto simp: is_double_def round_to_double_pos)

lemma is_double_uminus: "is_double v \<Longrightarrow> is_double (- v)"
proof -
  assume d: "is_double v"
  consider "v = 0" | "0 < v" | "v < 0" by linarith
  then show ?thesis
  proof cases
    case 1 then show ?thesis by simp
  next
    case 2
    then have "round_mag v = v" "v \<le> MAX_VALUE" using d by (simp_all add: is_double_pos_iff)
    then show ?thesis using 2 by (simp add: is_double_def round_to_double_neg)
  next
    case 3
    then have "round_to_double v = Num v" using d by (simp add: is_double_def)
    then have "round_mag (- v) = - v \<and> - v \<le> MAX_VALUE"
      using 3 by (auto simp: round_to_double_neg split: if_splits)
    then show ?thesis using 3 by (simp add: is_double_pos_iff)
  qed
qed

lemma round_to_double_is_double:
  assumes "round_to_double r = Num v"
  shows "is_double v"
proof -
  consider "r = 0" | "0 < r" | "r < 0" by linarith
  then show ?thesis
  proof cases
    case 1 then show ?thesis using assms by auto
  next
    case 2
    then have v: "v = round_mag r" "round_mag r \<le> MAX_VALUE"
      using assms by (auto simp: round_to_double_pos split: if_splits)
    show ?thesis
    proof (cases "v = 0")
      case True then show ?thesis by simp
    next
      case False
      then have "0 < v" using round_mag_nonneg[OF 2] v(1) by simp
      then show ?thesis using v round_mag_idem[OF 2] by (simp add: is_double_pos_iff)
    qed
  next
    case 3
    then have v: "v = - round_mag (- r)" "round_mag (- r) \<le> MAX_VALUE" "round_mag (- r) \<noteq> 0"
      using assms by (auto simp: round_to_double_neg split: if_splits)
    have p: "0 < - r" using 3 by simp
    have "0 < round_mag (- r)" using round_mag_nonneg[OF p] v(3) by simp
    then have "is_double (round_mag (- r))"
      using v(2) round_mag_idem[OF p] by (simp add: is_double_pos_iff)
    then show ?thesis unfolding v(1) by (rule is_double_uminus)
  qed
qed

lemma round_to_double_overflow:
  "2 ^ 1024 \<le> r \<Longrightarrow> round_to_double r = PosInf"
proof -
  assume h: "2 ^ 1024 \<le> r"
  then have "0 < r" by (rule less_le_trans[rotated]) simp
  then show ?thesis using round_mag_overflow[OF h] by (simp add: round_to_double_pos)
qed

lemma round_to_double_overflow_neg:
  "r \<le> - (2 ^ 1024) \<Longrightarrow> round_to_double r = NegInf"
proof -
  assume "r \<le> - (2 ^ 1024)"
  then have h: "2 ^ 1024 \<le> - r" by simp
  then have "0 < - r" by (rule less_le_trans[rotated]) simp
  then have "r < 0" by simp
  then show ?thesis using round_mag_overflow[OF h] by (simp add: round_to_double_neg)
qed

lemma is_double_repr:
  assumes "0 < m" "m \<le> 2 ^ 53" "- 1074 \<le> e" "of_int m * 2 powi e \<le> MAX_VALUE"
  shows "is_double (of_int m * 2 powi e)"
proof -
  have "0 < of_int m * (2::rat) powi e" using assms(1) by simp
  then show ?thesis
    using round_mag_repr[OF assms(1-3)] assms(4) by (simp add: is_double_pos_iff)
qed

lemma is_double_of_int:
  assumes "\<bar>n\<bar> \<le> 2 ^ 53"
  shows "is_double (of_int n)"
proof -
  have pos: "is_double (of_int k)" if k: "0 < k" "k \<le> 2 ^ 53" for k
  proof -
    have "(of_int k :: rat) \<le> of_int (2 ^ 53)" using k(2) by (simp only: of_int_le_iff)
    also have "\<dots> \<le> MAX_VALUE" by (simp add: MAX_VALUE_def)
    finally show ?thesis using is_double_repr[of k 0] k by simp
  qed
  consider "n = 0" | "0 < n" | "n < 0" by linarith
  then show ?thesis
  proof cases
    case 1 then show ?thesis by simp
  next
    case 2 then show ?thesis using pos[of n] assms by simp
  next
    case 3
    then have "is_double (of_int (- n))" using pos[of "- n"] assms by simp
    then have "is_double (- of_int (- n))" by (rule is_double_uminus)
    then show ?thesis by simp
  qed
qed

lemma round_to_double_numeral [simp]:
  "numeral w \<le> (2 ^ 53 :: int) \<Longrightarrow> round_to_double (numeral w) = Num (numeral w)"
  using is_double_of_int[of "numeral w"] by (simp add: is_double_def)

lemma round_half_even_le_half: "q < of_int n + 1 / 2 \<Longrightarrow> round_half_even q \<le> n"
proof -
  assume h: "q < of_int n + 1 / 2"
  then have "q < of_int (n + 1)" by simp
  then have f: "\<lfloor>q\<rfloor> \<le> n" by linarith
  show ?thesis
  proof (cases "\<lfloor>q\<rfloor> = n")
    case True
    then have "q - of_int \<lfloor>q\<rfloor> < 1 / 2" using h by simp
    then show ?thesis using True by (simp add: round_half_even_def Let_def)
  next
    case False
    then have "\<lfloor>q\<rfloor> + 1 \<le> n" using f by simp
    then show ?thesis by (auto simp: round_half_even_def Let_def)
  qed
qed

lemma round_half_even_ge_half:
  "of_int n - 1 / 2 \<le> q \<Longrightarrow> even n \<Longrightarrow> n \<le> round_half_even q"
proof -
  assume h: "of_int n - 1 / 2 \<le> q" and ev: "even n"
  have "of_int (n - 1) \<le> q" using h by simp
  then have f: "n - 1 \<le> \<lfloor>q\<rfloor>" by (simp only: le_floor_iff)
  show ?thesis
  proof (cases "\<lfloor>q\<rfloor> = n - 1")
    case True
    then have d: "1 / 2 \<le> q - of_int \<lfloor>q\<rfloor>" using h by simp
    have "odd \<lfloor>q\<rfloor>" using True ev by simp
    then show ?thesis using True d by (auto simp: round_half_even_def Let_def)
  next
    case False
    then have "n \<le> \<lfloor>q\<rfloor>" using f by simp
    then show ?thesis by (auto simp: round_half_even_def Let_def)
  qed
qed

lemma threshold_eq: "(2::rat) ^ 1024 - 2 ^ 970 = (2 ^ 53 - 1 / 2) * 2 ^ 971"
proof -
  have "(2::rat) ^ 1024 = 2 ^ 53 * 2 ^ 971" by (simp add: power_add[symmetric])
  moreover have "(2::rat) ^ 971 = 2 * 2 ^ 970" by (simp add: power_Suc[symmetric] del: power_Suc)
  ultimately show ?thesis by (simp add: left_diff_distrib)
qed

lemma round_mag_no_overflow:
  assumes a: "0 < a" and lt: "a < 2 ^ 1024 - 2 ^ 970"
  shows "round_mag a \<le> MAX_VALUE"
proof -
  let ?e = "ulp_exp a"
  have "a < 2 ^ 1024" using lt by (rule less_trans) simp
  then have "a < 2 powi 1024" by simp
  then have "ilog2 a < 1024" by (rule ilog2_less[OF a])
  then have e: "?e \<le> 971" by (simp add: ulp_exp_def)
  show ?thesis
  proof (cases "?e = 971")
    case True
    have "a < (2 ^ 53 - 1 / 2) * 2 ^ 971" using lt by (simp only: threshold_eq)
    then have "a / 2 powi ?e < of_int (2 ^ 53 - 1) + 1 / 2"
      by (simp add: True field_simps)
    then have "round_half_even (a / 2 powi ?e) \<le> 2 ^ 53 - 1" by (rule round_half_even_le_half)
    then have "(of_int (round_half_even (a / 2 powi ?e)) :: rat) \<le> of_int (2 ^ 53 - 1)"
      by (simp only: of_int_le_iff)
    then have "round_mag a \<le> of_int (2 ^ 53 - 1) * 2 powi ?e"
      unfolding round_mag_def by (intro mult_right_mono) auto
    then show ?thesis by (simp add: True MAX_VALUE_def)
  next
    case False
    then have e': "?e \<le> 970" using e by simp
    have "a / 2 powi ?e \<le> of_int (2 ^ 53)"
      using scaled_less[OF a] by simp
    then have "round_half_even (a / 2 powi ?e) \<le> 2 ^ 53" by (rule round_half_even_le)
    then have "(of_int (round_half_even (a / 2 powi ?e)) :: rat) \<le> of_int (2 ^ 53)"
      by (simp only: of_int_le_iff)
    then have "round_mag a \<le> of_int (2 ^ 53) * 2 powi ?e"
      unfolding round_mag_def by (intro mult_right_mono) auto
    also have "\<dots> = 2 powi (?e + 53)" by (simp add: power_int_add)
    also have "\<dots> \<le> 2 powi 1023" using e' by (intro power_int_increasing) auto
    also have "\<dots> \<le> MAX_VALUE" by (simp add: MAX_VALUE_def)
    finally show ?thesis .
  qed
qed

lemma round_mag_overflow':
  assumes le: "2 ^ 1024 - 2 ^ 970 \<le> a"
  shows "MAX_VALUE < round_mag a"
proof (cases "2 ^ 1024 \<le> a")
  case True then show ?thesis by (rule round_mag_overflow)
next
  case False
  then have lt: "a < 2 powi 1024" by simp
  have "(2::rat) ^ 1023 \<le> 2 ^ 1024 - 2 ^ 970" by simp
  then have ge: "2 powi 1023 \<le> a" using le by simp
  have a: "0 < a" using ge by (rule less_le_trans[rotated]) simp
  have "1023 \<le> ilog2 a" by (rule ilog2_ge[OF a ge])
  moreover have "ilog2 a < 1024" by (rule ilog2_less[OF a lt])
  ultimately have e: "ulp_exp a = 971" by (simp add: ulp_exp_def)
  have "(2 ^ 53 - 1 / 2) * 2 ^ 971 \<le> a" using le by (simp only: threshold_eq)
  then have "of_int (2 ^ 53) - 1 / 2 \<le> a / 2 powi ulp_exp a"
    by (simp add: e field_simps)
  then have "2 ^ 53 \<le> round_half_even (a / 2 powi ulp_exp a)"
    by (rule round_half_even_ge_half) simp
  then have "(of_int (2 ^ 53) :: rat) \<le> of_int (round_half_even (a / 2 powi ulp_exp a))"
    by (simp only: of_int_le_iff)
  then have "of_int (2 ^ 53) * 2 powi ulp_exp a \<le> round_mag a"
    unfolding round_mag_def by (intro mult_right_mono) auto
  then have "2 ^ 1024 \<le> round_mag a" by (simp add: e power_add[symmetric])
  then show ?thesis using MAX_VALUE_less by simp
qed

lemma round_mag_overflow_iff:
  "0 < a \<Longrightarrow> MAX_VALUE < round_mag a \<longleftrightarrow> 2 ^ 1024 - 2 ^ 970 \<le> a"
  using round_mag_no_overflow[of a] round_mag_overflow'[of a] by fastforce

lemma overflows_zero [simp]: "\<not> overflows 0"
  by (simp add: overflows_def)

lemma is_inf_round_to_double: "is_inf (round_to_double r) \<longleftrightarrow> overflows r"
proof (cases "r = 0")
  case True then show ?thesis by simp
next
  case False
  then have "0 < \<bar>r\<bar>" by simp
  then show ?thesis using False round_mag_overflow_iff[of "\<bar>r\<bar>"]
    by (simp add: round_to_double_def Let_def overflows_def)
qed

lemma round_to_double_not_NaN [simp]: "round_to_double r \<noteq> NaN"
  by (simp add: round_to_double_def Let_def)

lemma isFinite_iff: "isFinite x \<longleftrightarrow> x \<noteq> NaN \<and> \<not> is_inf x"
  by (cases x) auto

lemma isFinite_round_to_double: "isFinite (round_to_double r) \<longleftrightarrow> \<not> overflows r"
  by (simp add: isFinite_iff is_inf_round_to_double)

lemma round_mag_rel_error:
  assumes a: "0 < a"
  shows "\<bar>round_mag a - a\<bar> \<le> a / 2 ^ 53 + 1 / 2 ^ 1075"
proof (cases "ulp_exp a = - 1074")
  case True
  have "\<bar>round_mag a - a\<bar> \<le> 2 powi (- 1074) / 2" using round_mag_error[OF a] True by simp
  also have "\<dots> = 1 / 2 ^ 1075" by (simp add: power_int_minus_divide)
  also have "\<dots> \<le> a / 2 ^ 53 + 1 / 2 ^ 1075" using a by simp
  finally show ?thesis .
next
  case False
  then have "- 1074 < ulp_exp a" using ulp_exp_ge[of a] by simp
  then have "2 powi (ulp_exp a + 52) \<le> a" by (rule ulp_exp_lower[OF a])
  then have "2 powi ulp_exp a * 2 ^ 52 \<le> a" by (simp add: power_int_add)
  then have "2 powi ulp_exp a / 2 \<le> a / 2 ^ 53" by (simp add: field_simps)
  then have "\<bar>round_mag a - a\<bar> \<le> a / 2 ^ 53" using round_mag_error[OF a] by simp
  then show ?thesis by simp
qed

lemma round_mag_le_MAX:
  assumes "0 < r" "\<not> overflows r"
  shows "round_mag r \<le> MAX_VALUE"
proof -
  have "\<bar>r\<bar> = r" using assms(1) by simp
  then have "\<not> 2 ^ 1024 - 2 ^ 970 \<le> r" using assms(2) unfolding overflows_def by metis
  then have "\<not> MAX_VALUE < round_mag r" using round_mag_overflow_iff[OF assms(1)] by blast
  then show ?thesis by (simp only: not_less)
qed

lemma round_to_double_pos_no_overflow:
  assumes "0 < r" "\<not> overflows r"
  shows "round_to_double r = Num (round_mag r)"
  using assms(1) round_mag_le_MAX[OF assms] by (simp add: round_to_double_pos)

section \<open>Properties of the validator and of the operations\<close>

lemma is_number_round [simp]: "is_number (round_to_double r)"
proof (cases "round_to_double r")
  case (Num v)
  then show ?thesis using round_to_double_is_double[of r v] by simp
qed simp_all

lemma is_number_zero_of [simp]: "is_number (zero_of b)"
  by (simp add: zero_of_def)

lemma is_number_inf_of [simp]: "is_number (inf_of b)"
  by (simp add: inf_of_def)

lemma is_number_js_mul [simp]: "is_number (js_mul x y)"
  by (simp add: js_mul_def)

lemma is_number_js_div [simp]: "is_number (js_div x y)"
  by (simp add: js_div_def)

lemma is_number_is_inf: "is_inf x \<Longrightarrow> is_number x"
  by (cases x) auto

lemma is_number_js_add [simp]: "is_number (js_add x y)"
  by (simp add: js_add_def is_number_is_inf)

lemma is_number_js_sub [simp]: "is_number (js_sub x y)"
  by (simp add: js_sub_def)

lemma is_number_Math_max: "is_number x \<Longrightarrow> is_number y \<Longrightarrow> is_number (Math_max x y)"
  by (simp add: Math_max_def)

lemma is_number_Math_min: "is_number x \<Longrightarrow> is_number y \<Longrightarrow> is_number (Math_min x y)"
  by (simp add: Math_min_def)

lemma js_le_zero: "isFinite x \<Longrightarrow> js_le x (Num 0) \<longleftrightarrow> val x \<le> 0"
  by (cases x) (auto simp: js_le_def js_lt_def js_eq_def)

lemma toPositive_cases:
  "toPositive x =
     (if \<not> isFinite x then Inl (RangeError ''Value must be finite'')
      else if val x \<le> 0 then Inr (Num 0) else Inr x)"
  by (simp add: toPositive_def js_le_zero)

lemma valid_Duration_iff:
  "valid_Duration d \<longleftrightarrow> (\<exists>r. nanoseconds d = Num r \<and> 0 \<le> r \<and> is_double r)"
  by (cases "nanoseconds d") (simp_all add: valid_Duration_def)

lemma new_Duration_valid:
  assumes "is_number v" "new_Duration v = Inr d"
  shows "valid_Duration d"
proof (cases v)
  case (Num r)
  then show ?thesis using assms
    by (auto simp: new_Duration_def toPositive_cases valid_Duration_iff split: if_splits)
next
  case NegZero
  then show ?thesis using assms
    by (auto simp: new_Duration_def toPositive_cases valid_Duration_iff)
qed (use assms in \<open>auto simp: new_Duration_def toPositive_cases\<close>)

lemma valid_Duration_is_number: "valid_Duration d \<Longrightarrow> is_number (nanoseconds d)"
  by (auto simp: valid_Duration_iff)

lemma reachable_valid: "reachable d \<Longrightarrow> valid_Duration d"
proof (induction rule: reachable.induct)
  case (r_ZERO d)
  then show ?case by (auto simp: ZERO_def intro: new_Duration_valid[rotated])
next
  case (r_clamp a mn mx d)
  then have "is_number (Math_min (Math_max (nanoseconds a) (nanoseconds mn)) (nanoseconds mx))"
    by (intro is_number_Math_min is_number_Math_max valid_Duration_is_number)
  then show ?case using r_clamp.hyps(4)
    by (auto simp: clamp_def split: if_splits intro: new_Duration_valid)
qed (auto simp: fromNanos_def fromMicros_def fromMillis_def fromSecs_def fromMinutes_def
      fromHours_def add_def sub_def mul_def div_by_def
      split: if_splits intro: new_Duration_valid[rotated])

lemma js_ge_zero: "isFinite x \<Longrightarrow> js_ge x (Num 0) \<longleftrightarrow> 0 \<le> val x"
  by (cases x) (auto simp: js_ge_def js_le_def js_lt_def js_eq_def)

lemma NS_PER_MINUTE_eq: "NS_PER_MINUTE = Num 60000000000"
  by (simp add: NS_PER_MINUTE_def NS_PER_SECOND_def js_mul_def is_zero_def)

lemma NS_PER_HOUR_eq: "NS_PER_HOUR = Num 3600000000000"
  by (simp add: NS_PER_HOUR_def NS_PER_MINUTE_eq js_mul_def is_zero_def)

lemma is_double_numeral [simp]: "numeral w \<le> (2 ^ 53 :: int) \<Longrightarrow> is_double (numeral w)"
  by (simp add: is_double_def)

lemma fromSecs_1: "fromSecs (Num 1) = Inr \<lparr>nanoseconds = Num 1000000000\<rparr>"
  by (simp add: fromSecs_def NS_PER_SECOND_def js_mul_def is_zero_def new_Duration_def toPositive_cases)

lemma fromMillis_500: "fromMillis (Num 500) = Inr \<lparr>nanoseconds = Num 500000000\<rparr>"
  by (simp add: fromMillis_def NS_PER_MILLI_def js_mul_def is_zero_def new_Duration_def toPositive_cases)

lemma add_example:
  "add \<lparr>nanoseconds = Num 1000000000\<rparr> \<lparr>nanoseconds = Num 500000000\<rparr>
     = Inr \<lparr>nanoseconds = Num 1500000000\<rparr>"
  by (simp add: add_def js_add_def new_Duration_def toPositive_cases)

subsection \<open>Subtraction, comparison and clamping of finite values\<close>

lemma MAX_VALUE_below_threshold: "MAX_VALUE < 2 ^ 1024 - 2 ^ 970"
proof -
  have "MAX_VALUE = 2 ^ 1024 - 2 ^ 971"
    by (simp add: MAX_VALUE_def left_diff_distrib power_add[symmetric])
  then show ?thesis by simp
qed

lemma not_overflows_le: "\<bar>r\<bar> \<le> MAX_VALUE \<Longrightarrow> \<not> overflows r"
  using MAX_VALUE_below_threshold by (simp add: overflows_def)

lemma js_sub_Num: "js_sub (Num a) (Num b) = round_to_double (a - b)"
  by (simp add: js_sub_def js_neg_def js_add_def)

lemma round_to_double_nonneg:
  assumes "0 \<le> r" "\<not> overflows r"
  shows "\<exists>v. round_to_double r = Num v \<and> 0 \<le> v \<and> is_double v"
proof (cases "round_to_double r")
  case (Num v)
  then show ?thesis
    using round_to_double_Num_sign[OF Num] round_to_double_is_double[OF Num] assms by simp
next
  case NegZero
  then show ?thesis using assms(1) by (auto simp: round_to_double_def Let_def split: if_splits)
qed (use assms is_inf_round_to_double[of r] in auto)

lemma round_to_double_nonpos:
  assumes "r \<le> 0" "\<not> overflows r"
  shows "isFinite (round_to_double r) \<and> val (round_to_double r) \<le> 0"
proof (cases "round_to_double r")
  case (Num v)
  then show ?thesis using round_to_double_Num_sign[OF Num] assms by simp
qed (use assms is_inf_round_to_double[of r] in auto)

lemma new_Duration_Num:
  "new_Duration (Num v) = Inr \<lparr>nanoseconds = Num (max 0 v)\<rparr>"
  by (simp add: new_Duration_def toPositive_cases max_def)

lemma new_Duration_nonpos:
  "isFinite x \<Longrightarrow> val x \<le> 0 \<Longrightarrow> new_Duration x = Inr \<lparr>nanoseconds = Num 0\<rparr>"
  by (simp add: new_Duration_def toPositive_cases)

lemma fromSecs_5: "fromSecs (Num 5) = Inr \<lparr>nanoseconds = Num 5000000000\<rparr>"
  by (simp add: fromSecs_def NS_PER_SECOND_def js_mul_def is_zero_def new_Duration_Num)

lemma valid_Duration_numeral [simp]:
  "numeral w \<le> (2 ^ 53 :: int) \<Longrightarrow> valid_Duration \<lparr>nanoseconds = Num (numeral w)\<rparr>"
  by (simp add: valid_Duration_iff)

lemma js_lt_Num [simp]: "js_lt (Num a) (Num b) \<longleftrightarrow> a < b"
  by (simp add: js_lt_def)

lemma Math_max_Num: "Math_max (Num a) (Num b) = Num (max a b)"
  by (simp add: Math_max_def max_def)

lemma Math_min_Num: "Math_min (Num a) (Num b) = Num (min a b)"
  by (simp add: Math_min_def min_def)

section \<open>Evaluating concrete numbers and strings\<close>

lemma floor_numeral_div [simp]:
  "\<lfloor>numeral a / numeral b :: rat\<rfloor> = numeral a div numeral b"
  using floor_divide_of_int_eq[of "numeral a" "numeral b", where ?'a = rat] by simp

lemma floor_one_div_numeral [simp]:
  "\<lfloor>1 / numeral b :: rat\<rfloor> = 1 div numeral b"
  using floor_divide_of_int_eq[of 1 "numeral b", where ?'a = rat] by simp

lemma ceiling_numeral_div [simp]:
  "\<lceil>numeral a / numeral b :: rat\<rceil> = - (- numeral a div numeral b)"
  using floor_divide_of_int_eq[of "- numeral a" "numeral b", where ?'a = rat]
  by (simp add: ceiling_def)

lemma shortest_digits_numeral:
  "shortest_digits r k (numeral w) =
     (case digit_candidates r k of
        [] \<Rightarrow> shortest_digits r (Suc k) (pred_numeral w)
      | c # cs \<Rightarrow> (k, best_candidate r k c cs))"
  by (simp add: numeral_eq_Suc)

lemma replicate_numeral_eval:
  "replicate (numeral w) x = x # replicate (pred_numeral w) x"
  by (simp add: numeral_eq_Suc)

lemma round_to_double_one [simp]: "round_to_double 1 = Num 1"
  using is_double_of_int[of 1] by (simp add: is_double_def)

lemma round_to_double_neq:
  assumes "0 < r" "r / 2 ^ 53 + 1 / 2 ^ 1075 < \<bar>v - r\<bar>"
  shows "round_to_double r \<noteq> Num v"
proof
  assume "round_to_double r = Num v"
  then have "v = round_mag r"
    using assms(1) by (auto simp: round_to_double_pos split: if_splits)
  then show False using round_mag_rel_error[OF assms(1)] assms(2) by simp
qed

lemma round_to_double_eq_False:
  "0 < r \<Longrightarrow> r / 2 ^ 53 + 1 / 2 ^ 1075 < \<bar>v - r\<bar> \<Longrightarrow> (round_to_double r = Num v) = False"
  using round_to_double_neq by simp

lemma ilog2_eq: "0 < r \<Longrightarrow> 2 powi k \<le> r \<Longrightarrow> r < 2 powi (k + 1) \<Longrightarrow> ilog2 r = k"
  using ilog2_ge[of r k] ilog2_less[of r "k + 1"] by simp

lemma round_to_double_pos_eval:
  assumes "0 < r" "2 powi k \<le> r" "r < 2 powi (k + 1)"
  shows "round_to_double r =
           (if MAX_VALUE < of_int (round_half_even (r / 2 powi max (- 1074) (k - 52)))
                             * 2 powi max (- 1074) (k - 52)
            then PosInf
            else Num (of_int (round_half_even (r / 2 powi max (- 1074) (k - 52)))
                       * 2 powi max (- 1074) (k - 52)))"
  using assms(1) ilog2_eq[OF assms]
  by (simp add: round_to_double_pos round_mag_def ulp_exp_def)

lemmas toString_eval =
  Number_toString_def positive_toString_def shortest_digits_numeral digit_candidates_def
  format_digits_def digits_of.simps digit_char_def digit_error_def replicate_numeral_eval
  power_int_minus_divide round_to_double_eq_False

lemma js_eq_Num [simp]: "js_eq (Num a) (Num b) \<longleftrightarrow> a = b"
  by (simp add: js_eq_def)

lemma js_mod_Num:
  "a \<noteq> 0 \<Longrightarrow> b \<noteq> 0 \<Longrightarrow>
   js_mod (Num a) (Num b) =
     (if a - b * of_int (trunc (a / b)) = 0 then zero_of (a < 0)
      else Num (a - b * of_int (trunc (a / b))))"
  by (simp add: js_mod_def is_zero_def Let_def)

lemmas NS_PER_eval =
  NS_PER_HOUR_eq NS_PER_MINUTE_eq NS_PER_SECOND_def NS_PER_MILLI_def NS_PER_MICRO_def

lemma isZero_iff: "isZero d \<longleftrightarrow> nanoseconds d = Num 0 \<or> nanoseconds d = NegZero"
  by (cases "nanoseconds d") (auto simp: isZero_def js_eq_def)

lemma Number_toString_zero [simp]:
  "Number_toString (Num 0) = ''0''" "Number_toString NegZero = ''0''"
  by (simp_all add: Number_toString_def)

lemma ZERO_eq: "ZERO = Inr \<lparr>nanoseconds = Num 0\<rparr>"
  by (simp add: ZERO_def new_Duration_Num)

lemma fromMillis_0: "fromMillis (Num 0) = Inr \<lparr>nanoseconds = Num 0\<rparr>"
  by (simp add: fromMillis_def js_mul_def is_zero_def zero_of_def NS_PER_MILLI_def new_Duration_Num)

subsection \<open>One and a half seconds\<close>

lemma fromMillis_1500: "fromMillis (Num 1500) = Inr \<lparr>nanoseconds = Num 1500000000\<rparr>"
  by (simp add: fromMillis_def js_mul_def is_zero_def NS_PER_MILLI_def new_Duration_Num)

lemma js_mod_1500ms:
  "js_mod (Num 1500000000) NS_PER_HOUR = Num 1500000000"
  "js_mod (Num 1500000000) NS_PER_MINUTE = Num 1500000000"
  "js_mod (Num 1500000000) NS_PER_SECOND = Num 500000000"
  "js_mod (Num 1500000000) NS_PER_MILLI = Num 0"
  by (simp_all add: js_mod_Num NS_PER_eval trunc_def zero_of_def)

lemma ilog10_1500: "ilog10 1500 = 3"
  by (simp add: ilog10_def decimal_length.simps)

lemma Number_toString_1500: "Number_toString (Num 1500) = ''1500''"
  by (simp add: toString_eval ilog10_1500)

lemma round_n_asMillis_1500: "round_n (asMillis \<lparr>nanoseconds = Num 1500000000\<rparr>) = Num 1500"
  by (simp add: asMillis_def NS_PER_MILLI_def js_div_def is_zero_def round_n_def isInteger_def)

lemma toString_1500ms: "toString \<lparr>nanoseconds = Num 1500000000\<rparr> = ''1500ms''"
  by (simp add: toString_def js_mod_1500ms round_n_asMillis_1500 Number_toString_1500)

subsection \<open>A count of 1/128 nanosecond\<close>

lemma round_to_double_128: "round_to_double (1 / 128) = Num (1 / 128)"
  using is_double_repr[of 1 "- 7"] by (simp add: is_double_def MAX_VALUE_def power_int_minus_divide)

lemma ilog10_128: "ilog10 (1 / 128) = - 3"
  by (simp add: ilog10_def decimal_length.simps)

lemma Number_toString_128: "Number_toString (Num (1 / 128)) = ''0.0078125''"
  by (simp add: toString_eval ilog10_128 round_to_double_128)

lemma js_mod_128:
  "js_mod (Num (1 / 128)) NS_PER_HOUR = Num (1 / 128)"
  "js_mod (Num (1 / 128)) NS_PER_MINUTE = Num (1 / 128)"
  "js_mod (Num (1 / 128)) NS_PER_SECOND = Num (1 / 128)"
  "js_mod (Num (1 / 128)) NS_PER_MILLI = Num (1 / 128)"
  "js_mod (Num (1 / 128)) NS_PER_MICRO = Num (1 / 128)"
  by (simp_all add: js_mod_Num trunc_def NS_PER_eval)

lemma toString_128: "toString \<lparr>nanoseconds = Num (1 / 128)\<rparr> = ''0.0078125ns''"
  by (simp add: toString_def js_mod_128 Number_toString_128)

lemma round_to_double_007813:
  "round_to_double (7813 / 1000000) = Num (562985982218331 / 72057594037927936)"
  by (simp add: round_to_double_pos_eval[where k = "- 7"] power_int_minus_divide
      round_half_even_def MAX_VALUE_def)

lemma round_n_128: "round_n (Num (1 / 128)) = Num (562985982218331 / 72057594037927936)"
  by (simp add: round_n_def isInteger_def Number_toFixed_def round_to_double_007813)

lemma ilog10_007813: "ilog10 (562985982218331 / 72057594037927936) = - 3"
  by (simp add: ilog10_def decimal_length.simps)

lemma Number_toString_007813:
  "Number_toString (Num (562985982218331 / 72057594037927936)) = ''0.007813''"
  by (simp add: toString_eval ilog10_007813 round_to_double_007813)

section \<open>Properties of the display format\<close>

lemma chosen_unit_divides: "chosen_unit d = Some u \<Longrightarrow> divides_evenly d u"
  by (auto simp: chosen_unit_def split: if_splits)

lemma toString_unit_branches:
  "toString d =
     (case chosen_unit d of
        Some u \<Rightarrow> Number_toString (round_n (js_div (nanoseconds d) (scale_factor u))) @ short_code u
      | None \<Rightarrow> Number_toString (nanoseconds d) @ ''ns'')"
  by (simp add: toString_def chosen_unit_def divides_evenly_def asHours_def asMinutes_def
      asSecs_def asMillis_def asMicros_def)

lemma toString_refines:
  "chosen_unit d \<noteq> None \<or> isInteger (nanoseconds d) \<Longrightarrow> toString d = toString_spec d"
  by (auto simp: toString_unit_branches toString_spec_def round_n_def split: option.splits)

lemma chosen_unit_128: "chosen_unit \<lparr>nanoseconds = Num (1 / 128)\<rparr> = None"
  by (simp add: chosen_unit_def divides_evenly_def js_mod_128)

lemma isInteger_Num_of_int [simp]: "isInteger (Num (of_int j))"
  by (simp add: isInteger_def)

lemma round_mag_of_int_integer:
  assumes k: "0 < k"
  shows "\<exists>j. round_mag (of_int k) = of_int j"
proof (cases "k \<le> 2 ^ 53")
  case True
  then have "round_mag (of_int k * 2 powi 0) = of_int k * 2 powi 0"
    using k by (intro round_mag_repr) auto
  then show ?thesis by auto
next
  case False
  let ?a = "of_int k :: rat"
  have a: "0 < ?a" using k by simp
  have "(2::rat) powi 53 = of_int (2 ^ 53)" by simp
  also have "\<dots> \<le> ?a" using False by (simp only: of_int_le_iff)
  finally have "53 \<le> ilog2 ?a" by (rule ilog2_ge[OF a])
  then have e: "1 \<le> ulp_exp ?a" by (simp add: ulp_exp_def)
  then have "(2::rat) powi ulp_exp ?a = of_int (2 ^ nat (ulp_exp ?a))"
    by (simp add: power_int_def)
  then have "round_mag ?a
               = of_int (round_half_even (?a / 2 powi ulp_exp ?a) * 2 ^ nat (ulp_exp ?a))"
    by (simp add: round_mag_def)
  then show ?thesis by blast
qed

lemma isInteger_round_of_int:
  assumes "0 \<le> k" "\<not> overflows (of_int k)"
  shows "isInteger (round_to_double (of_int k))"
proof (cases "k = 0")
  case True then show ?thesis by (simp add: isInteger_def)
next
  case False
  then have k: "0 < k" using assms(1) by simp
  then have p: "(0::rat) < of_int k" by simp
  obtain j where "round_mag (of_int k) = of_int j" using round_mag_of_int_integer[OF k] by blast
  then show ?thesis using round_to_double_pos_no_overflow[OF p assms(2)] by simp
qed

lemma divides_quotient:
  assumes a: "0 < a" and u: "0 < u" and m: "js_eq (js_mod (Num a) (Num u)) (Num 0)"
  shows "a / u = of_int (trunc (a / u)) \<and> 0 \<le> trunc (a / u)"
proof -
  have "a - u * of_int (trunc (a / u)) = 0"
    using m a u by (auto simp: js_mod_Num zero_of_def split: if_splits)
  then have "a / u = of_int (trunc (a / u))" using u by (simp add: field_simps)
  moreover have "0 \<le> trunc (a / u)" using a u by (simp add: trunc_def)
  ultimately show ?thesis by simp
qed

lemma scale_factor_Num: "\<exists>c. scale_factor u = Num c \<and> 1 \<le> c"
  by (cases u) (simp_all add: NS_PER_eval)

lemma unit_magnitude_integer:
  assumes v: "valid_Duration d" and dv: "divides_evenly d u"
  shows "isInteger (js_div (nanoseconds d) (scale_factor u))"
proof -
  obtain a where a: "nanoseconds d = Num a" "0 \<le> a" "is_double a"
    using v by (auto simp: valid_Duration_iff)
  obtain c where c: "scale_factor u = Num c" "1 \<le> c" using scale_factor_Num by blast
  show ?thesis
  proof (cases "a = 0")
    case True
    then show ?thesis using a(1) c by (simp add: js_div_def is_zero_def zero_of_def isInteger_def)
  next
    case False
    then have ap: "0 < a" using a(2) by simp
    have cp: "0 < c" using c(2) by simp
    have m: "js_eq (js_mod (Num a) (Num c)) (Num 0)"
      using dv by (simp add: divides_evenly_def a(1) c(1))
    obtain k where k: "a / c = of_int k" "0 \<le> k"
      using divides_quotient[OF ap cp m] by blast
    have "a / c \<le> a" using ap c(2) by (simp add: field_simps)
    then have "\<bar>of_int k :: rat\<bar> \<le> MAX_VALUE"
      using is_double_bound[OF a(3)] ap k by simp
    then have "\<not> overflows (of_int k)" by (rule not_overflows_le)
    then have "isInteger (round_to_double (of_int k))" by (rule isInteger_round_of_int[OF k(2)])
    then show ?thesis using False cp k(1) by (simp add: a(1) c(1) js_div_def is_zero_def)
  qed
qed

lemma toString_never_rounds:
  assumes "valid_Duration d"
  shows "toString d =
     (case chosen_unit d of
        Some u \<Rightarrow> Number_toString (js_div (nanoseconds d) (scale_factor u)) @ short_code u
      | None \<Rightarrow> Number_toString (nanoseconds d) @ ''ns'')"
proof (cases "chosen_unit d")
  case None
  then show ?thesis by (simp add: toString_unit_branches)
next
  case (Some u)
  then have "isInteger (js_div (nanoseconds d) (scale_factor u))"
    using unit_magnitude_integer[OF assms] chosen_unit_divides by blast
  then show ?thesis using Some by (simp add: toString_unit_branches round_n_def)
qed

section \<open>Properties of the errors\<close>

lemma new_Duration_error:
  "new_Duration v = Inl e \<longleftrightarrow> \<not> isFinite v \<and> e = RangeError ''Value must be finite''"
  by (auto simp: new_Duration_def toPositive_cases)

lemma new_Duration_not_finite:
  "\<not> isFinite v \<Longrightarrow> new_Duration v = Inl (RangeError ''Value must be finite'')"
  by (simp add: new_Duration_def toPositive_cases)

lemma is_zero_simps [simp]:
  "is_zero (Num r) \<longleftrightarrow> r = 0" "is_zero NegZero" "\<not> is_zero NaN" "\<not> is_zero PosInf"
  "\<not> is_zero NegInf"
  by (simp_all add: is_zero_def)

lemma isFinite_zero_of [simp]: "isFinite (zero_of b)"
  by (simp add: zero_of_def)

lemma isFinite_inf_of [simp]: "\<not> isFinite (inf_of b)"
  by (simp add: inf_of_def)

lemma val_zero_of [simp]: "val (zero_of b) = 0"
  by (simp add: zero_of_def)

lemma isFinite_js_mul:
  "isFinite (js_mul x y) \<longleftrightarrow> isFinite x \<and> isFinite y \<and> \<not> overflows (val x * val y)"
  by (cases x; cases y) (auto simp: js_mul_def isFinite_round_to_double)

lemma isFinite_js_add:
  "isFinite (js_add x y) \<longleftrightarrow> isFinite x \<and> isFinite y \<and> \<not> overflows (val x + val y)"
  by (cases x; cases y) (auto simp: js_add_def isFinite_round_to_double)

lemma isFinite_js_div:
  "isFinite (js_div x y) \<longleftrightarrow>
     isFinite x \<and> y \<noteq> NaN \<and> (is_inf y \<or> \<not> is_zero y \<and> \<not> overflows (val x / val y))"
  by (cases x; cases y) (auto simp: js_div_def isFinite_round_to_double)

lemma js_eq_zero_iff: "js_eq k (Num 0) \<longleftrightarrow> k = Num 0 \<or> k = NegZero"
  by (cases k) (auto simp: js_eq_def)

lemma val_js_div_nonpos:
  assumes "0 \<le> a" "isFinite k" "val k < 0" "\<not> overflows (a / val k)"
  shows "isFinite (js_div (Num a) k) \<and> val (js_div (Num a) k) \<le> 0"
proof (cases k)
  case (Num r)
  then have r: "r < 0" using assms(3) by simp
  then have "a / r \<le> 0" using assms(1) by (simp add: divide_nonneg_neg)
  then show ?thesis
    using round_to_double_nonpos[of "a / r"] assms(4) Num r by (simp add: js_div_def)
qed (use assms in auto)

lemma is_double_pow2_1000: "is_double (2 ^ 1000)"
  using is_double_repr[of 1 1000] by (simp add: MAX_VALUE_def)

lemma is_double_neg_pow2_100: "is_double (- (1 / 2 ^ 100))"
proof -
  have "is_double (1 / 2 ^ 100)"
    using is_double_repr[of 1 "- 100"] by (simp add: MAX_VALUE_def power_int_minus_divide)
  then show ?thesis by (rule is_double_uminus)
qed

lemma valid_pow2_1000: "valid_Duration \<lparr>nanoseconds = Num (2 ^ 1000)\<rparr>"
  using is_double_pow2_1000 by (simp add: valid_Duration_iff)

lemma js_div_overflow_example:
  "js_div (Num (2 ^ 1000)) (Num (- (1 / 2 ^ 100))) = NegInf"
proof -
  have "(2::rat) ^ 1000 / (- (1 / 2 ^ 100)) \<le> - (2 ^ 1024)" by simp
  then have "round_to_double (2 ^ 1000 / (- (1 / 2 ^ 100))) = NegInf"
    by (rule round_to_double_overflow_neg)
  then show ?thesis by (simp add: js_div_def)
qed

lemma val_NS_PER:
  "val NS_PER_MICRO = 1000" "val NS_PER_MILLI = 1000000" "val NS_PER_SECOND = 1000000000"
  "val NS_PER_MINUTE = 60000000000" "val NS_PER_HOUR = 3600000000000"
  "isFinite NS_PER_MICRO" "isFinite NS_PER_MILLI" "isFinite NS_PER_SECOND"
  "isFinite NS_PER_MINUTE" "isFinite NS_PER_HOUR"
  by (simp_all add: NS_PER_eval)

lemma valid_pow2_1023: "valid_Duration \<lparr>nanoseconds = Num (2 ^ 1023)\<rparr>"
  using is_double_repr[of 1 1023] by (simp add: valid_Duration_iff MAX_VALUE_def)

section \<open>The error of a multiplication followed by a division\<close>

lemma two_roundings:
  fixes p c y z e h :: rat
  assumes r1: "\<bar>y - p\<bar> \<le> p * e + h" and r2: "\<bar>z - y / c\<bar> \<le> (y / c) * e + h"
    and c: "2 \<le> c" and p: "0 \<le> p" and e: "0 \<le> e" "e \<le> 1" and h: "0 \<le> h"
  shows "\<bar>z - p / c\<bar> \<le> (p / c) * (2 * e + e * e) + 2 * h"
proof -
  define t where "t = p / c"
  define q where "q = y / c"
  have cpos: "0 < c" using c by simp
  have t0: "0 \<le> t" using p cpos by (simp add: t_def)
  have "\<bar>q - t\<bar> = \<bar>y - p\<bar> / c"
    using cpos by (simp add: q_def t_def diff_divide_distrib[symmetric])
  also have "\<dots> \<le> (p * e + h) / c" using r1 cpos by (simp add: divide_right_mono)
  also have "\<dots> = t * e + h / c" by (simp add: t_def add_divide_distrib)
  also have "h / c \<le> h / 2" using c h by (intro divide_left_mono) auto
  finally have d1: "\<bar>q - t\<bar> \<le> t * e + h / 2" by simp
  then have qle: "q \<le> t + t * e + h / 2" by linarith
  have "q * e \<le> (t + t * e + h / 2) * e" using qle e(1) by (rule mult_right_mono)
  also have "\<dots> = t * e + t * (e * e) + (h * e) / 2" by (simp add: algebra_simps)
  also have "h * e \<le> h * 1" using e(2) h by (intro mult_left_mono) auto
  finally have qe: "q * e \<le> t * e + t * (e * e) + h / 2" by simp
  have "\<bar>z - q\<bar> \<le> q * e + h" using r2 by (simp add: q_def)
  then have "\<bar>z - t\<bar> \<le> t * (2 * e + e * e) + 2 * h"
    using d1 qe by (simp add: algebra_simps)
  then show ?thesis by (simp add: t_def)
qed

lemma scale_roundtrip:
  fixes x c1 c2 :: rat
  assumes x: "0 \<le> x" and c1: "0 < c1" and c2: "2 \<le> c2" and no: "\<not> overflows (x * c1)"
  shows "\<exists>y z. js_mul (Num x) (Num c1) = Num y \<and> 0 \<le> y
            \<and> js_div (Num y) (Num c2) = Num z \<and> 0 \<le> z
            \<and> \<bar>z - x * c1 / c2\<bar> \<le> (x * c1 / c2) * (1 / 2 ^ 52 + 1 / 2 ^ 106) + 1 / 2 ^ 1074"
proof (cases "x = 0")
  case True
  then show ?thesis using c1 c2 by (simp add: js_mul_def js_div_def zero_of_def)
next
  case False
  define p where "p = x * c1"
  define y where "y = round_mag p"
  have p: "0 < p" using False x c1 by (simp add: p_def)
  have c2pos: "0 < c2" using c2 by simp
  have mul: "js_mul (Num x) (Num c1) = Num y"
    using False c1 round_to_double_pos_no_overflow[OF p] no
    by (simp add: js_mul_def p_def y_def)
  have y0: "0 \<le> y" unfolding y_def by (rule round_mag_nonneg[OF p])
  have r1: "\<bar>y - p\<bar> \<le> p * (1 / 2 ^ 53) + 1 / 2 ^ 1075"
    using round_mag_rel_error[OF p] by (simp add: y_def)
  have yb: "y \<le> MAX_VALUE"
    using no round_mag_le_MAX[OF p] by (simp add: y_def p_def)
  have bound_eq: "(2::rat) * (1 / 2 ^ 53) + (1 / 2 ^ 53) * (1 / 2 ^ 53) = 1 / 2 ^ 52 + 1 / 2 ^ 106"
    "(2::rat) * (1 / 2 ^ 1075) = 1 / 2 ^ 1074"
    by simp_all
  show ?thesis
  proof (cases "y = 0")
    case True
    have div: "js_div (Num y) (Num c2) = Num 0"
      using True c2pos by (simp add: js_div_def zero_of_def)
    have "p \<le> p * (1 / 2 ^ 53) + 1 / 2 ^ 1075" using r1 True p by simp
    then have "p * (1 - 1 / 2 ^ 53) \<le> 1 / 2 ^ 1075" by (simp add: algebra_simps)
    moreover have "p * (1 / 2) \<le> p * (1 - 1 / 2 ^ 53)"
      using p by (intro mult_left_mono) auto
    ultimately have "p \<le> 1 / 2 ^ 1074" by simp
    moreover have "p / c2 \<le> p" using p c2 by (simp add: field_simps)
    moreover have "0 \<le> (p / c2) * (1 / 2 ^ 52 + 1 / 2 ^ 106)" using p c2pos by simp
    ultimately have "\<bar>0 - p / c2\<bar> \<le> (p / c2) * (1 / 2 ^ 52 + 1 / 2 ^ 106) + 1 / 2 ^ 1074"
      using p c2pos by simp
    then show ?thesis using mul div True by (auto simp: p_def)
  next
    case False
    define q where "q = y / c2"
    define z where "z = round_mag q"
    have ypos: "0 < y" using False y0 by simp
    have q: "0 < q" using ypos c2pos by (simp add: q_def)
    have "q \<le> y" using ypos c2 by (simp add: q_def field_simps)
    then have "\<bar>q\<bar> \<le> MAX_VALUE" using yb q by simp
    then have noq: "\<not> overflows q" by (rule not_overflows_le)
    have div: "js_div (Num y) (Num c2) = Num z"
      using False c2pos round_to_double_pos_no_overflow[OF q noq]
      by (simp add: js_div_def q_def z_def)
    have z0: "0 \<le> z" unfolding z_def by (rule round_mag_nonneg[OF q])
    have r2: "\<bar>z - y / c2\<bar> \<le> (y / c2) * (1 / 2 ^ 53) + 1 / 2 ^ 1075"
      using round_mag_rel_error[OF q] by (simp add: z_def q_def)
    have "\<bar>z - p / c2\<bar> \<le> (p / c2) * (2 * (1 / 2 ^ 53) + (1 / 2 ^ 53) * (1 / 2 ^ 53))
                          + 2 * (1 / 2 ^ 1075)"
      using r1 r2 c2 p by (intro two_roundings) auto
    then have "\<bar>z - p / c2\<bar> \<le> (p / c2) * (1 / 2 ^ 52 + 1 / 2 ^ 106) + 1 / 2 ^ 1074"
      by (simp only: bound_eq)
    then show ?thesis using mul div y0 z0 by (auto simp: p_def)
  qed
qed

lemma is_double_pow2_1010: "is_double (2 ^ 1010)"
  using is_double_repr[of 1 1010] by (simp add: MAX_VALUE_def)

section \<open>The properties\<close>

subsection \<open>The invariant of the type\<close>

text \<open>
  Claim C1.  Every duration reachable through the public interface (the constant \<^verbatim>\<open>ZERO\<close>,
  the six unit constructors, \<^verbatim>\<open>add\<close>, \<^verbatim>\<open>sub\<close>, \<^verbatim>\<open>mul\<close>, \<^verbatim>\<open>div\<close> and \<^verbatim>\<open>clamp\<close>) has a
  nanosecond count, as \<^verbatim>\<open>asNanos\<close> returns it, that is finite and not negative (and a
  binary64 value): each operation keeps the invariant or throws, in which case it yields no
  duration.
\<close>

theorem C1_invariant:
  "reachable d \<Longrightarrow>
     isFinite (asNanos d) \<and> js_ge (asNanos d) (Num 0) \<and> is_number (asNanos d)"
proof -
  assume "reachable d"
  then have "valid_Duration d" by (rule reachable_valid)
  then obtain r where "nanoseconds d = Num r" "0 \<le> r" "is_double r"
    by (auto simp: valid_Duration_iff)
  then show ?thesis by (simp add: asNanos_def js_ge_zero)
qed

theorem C1_invariant_witness:
  "reachable \<lparr>nanoseconds = Num 1500000000\<rparr>
   \<and> isFinite (asNanos \<lparr>nanoseconds = Num 1500000000\<rparr>)
   \<and> js_ge (asNanos \<lparr>nanoseconds = Num 1500000000\<rparr>) (Num 0)
   \<and> is_number (asNanos \<lparr>nanoseconds = Num 1500000000\<rparr>)"
proof -
  have one: "is_number (Num 1)" using is_double_of_int[of 1] by simp
  have a: "reachable \<lparr>nanoseconds = Num 1000000000\<rparr>"
    using one fromSecs_1 by (rule r_fromSecs)
  have b: "reachable \<lparr>nanoseconds = Num 500000000\<rparr>"
    by (rule r_fromMillis[OF _ fromMillis_500]) simp
  have r: "reachable \<lparr>nanoseconds = Num 1500000000\<rparr>"
    using a b add_example by (rule r_add)
  from C1_invariant[OF r] r show ?thesis by blast
qed

subsection \<open>The validator and \<^verbatim>\<open>fromNanos\<close>\<close>

text \<open>
  Claim C2.  For every number \<open>x\<close>: when \<open>x\<close> is not finite, the validator and \<^verbatim>\<open>fromNanos\<close>
  throw the error "Value must be finite" and produce no value; when \<open>x\<close> is finite and
  negative, the count of the resulting duration is 0 and nothing is thrown; when \<open>x\<close> is
  finite and not negative, the count equals \<open>x\<close> (it is \<open>x\<close> itself, except that negative
  zero, which equals zero, is stored as positive zero).
\<close>

theorem C2_validator:
  "(\<not> isFinite x \<longrightarrow>
       toPositive x = Inl (RangeError ''Value must be finite'')
     \<and> fromNanos x = Inl (RangeError ''Value must be finite''))
   \<and> (isFinite x \<and> js_lt x (Num 0) \<longrightarrow>
       toPositive x = Inr (Num 0) \<and> fromNanos x = Inr \<lparr>nanoseconds = Num 0\<rparr>)
   \<and> (isFinite x \<and> js_ge x (Num 0) \<longrightarrow>
       (\<exists>p. toPositive x = Inr p \<and> fromNanos x = Inr \<lparr>nanoseconds = p\<rparr>
            \<and> js_eq p x \<and> (x \<noteq> NegZero \<longrightarrow> p = x)))"
  by (cases x)
     (auto simp: fromNanos_def new_Duration_def toPositive_cases js_lt_def js_ge_def js_le_def
        js_eq_def)

theorem C2_validator_witness:
  "\<not> isFinite NaN \<and> fromNanos NaN = Inl (RangeError ''Value must be finite'')
   \<and> \<not> isFinite PosInf \<and> fromNanos PosInf = Inl (RangeError ''Value must be finite'')
   \<and> isFinite (Num (- 5)) \<and> js_lt (Num (- 5)) (Num 0)
   \<and> fromNanos (Num (- 5)) = Inr \<lparr>nanoseconds = Num 0\<rparr>
   \<and> isFinite (Num 7) \<and> js_ge (Num 7) (Num 0)
   \<and> fromNanos (Num 7) = Inr \<lparr>nanoseconds = Num 7\<rparr>"
proof -
  have n: "js_lt (Num (- 5)) (Num 0)" by (simp add: js_lt_def)
  have p: "js_ge (Num 7) (Num 0)" by (simp add: js_ge_def js_le_def js_lt_def)
  have 1: "fromNanos NaN = Inl (RangeError ''Value must be finite'')"
    using C2_validator[of NaN] by simp
  have 2: "fromNanos PosInf = Inl (RangeError ''Value must be finite'')"
    using C2_validator[of PosInf] by simp
  have 3: "fromNanos (Num (- 5)) = Inr \<lparr>nanoseconds = Num 0\<rparr>"
    using C2_validator[of "Num (- 5)"] n by simp
  have 4: "fromNanos (Num 7) = Inr \<lparr>nanoseconds = Num 7\<rparr>"
    using C2_validator[of "Num 7"] p by auto
  from 1 2 3 4 n p show ?thesis by simp
qed

subsection \<open>Subtraction\<close>

text \<open>
  Claim C3.  For all durations \<open>a\<close> and \<open>b\<close>, \<^verbatim>\<open>a.sub(b)\<close> throws nothing: it returns a
  duration whose count is the count of \<open>a\<close> minus the count of \<open>b\<close> (the subtraction of the
  language, which is the exact difference rounded) when that difference is not negative, and
  exactly 0 otherwise.  In particular \<^verbatim>\<open>Duration.fromSecs(1).sub(Duration.fromSecs(5))\<close> is
  the zero duration, the instance that follows the general statement.
\<close>

theorem C3_sub_saturates:
  assumes "valid_Duration a" "valid_Duration b"
  shows "\<exists>d. sub a b = Inr d \<and> valid_Duration d
            \<and> js_sub (nanoseconds a) (nanoseconds b)
                = round_to_double (val (nanoseconds a) - val (nanoseconds b))
            \<and> nanoseconds d =
                (if 0 \<le> val (nanoseconds a) - val (nanoseconds b)
                 then js_sub (nanoseconds a) (nanoseconds b) else Num 0)"
proof -
  obtain ra rb where a: "nanoseconds a = Num ra" "0 \<le> ra" "is_double ra"
    and b: "nanoseconds b = Num rb" "0 \<le> rb" "is_double rb"
    using assms by (auto simp: valid_Duration_iff)
  have "\<bar>ra - rb\<bar> \<le> MAX_VALUE"
    using is_double_bound[OF a(3)] is_double_bound[OF b(3)] a(2) b(2) by simp
  then have no: "\<not> overflows (ra - rb)" by (rule not_overflows_le)
  have s: "js_sub (nanoseconds a) (nanoseconds b) = round_to_double (ra - rb)"
    by (simp add: a(1) b(1) js_sub_Num)
  show ?thesis
  proof (cases "0 \<le> ra - rb")
    case True
    then obtain v where v: "round_to_double (ra - rb) = Num v" "0 \<le> v" "is_double v"
      using round_to_double_nonneg[OF _ no] by blast
    then show ?thesis using True s a(1) b(1)
      by (simp add: sub_def new_Duration_Num valid_Duration_iff max_def)
  next
    case False
    then have "isFinite (round_to_double (ra - rb)) \<and> val (round_to_double (ra - rb)) \<le> 0"
      using round_to_double_nonpos[OF _ no] by simp
    then show ?thesis using False s a(1) b(1)
      by (simp add: sub_def new_Duration_nonpos valid_Duration_iff)
  qed
qed

theorem C3_sub_saturates_witness:
  "fromSecs (Num 1) = Inr \<lparr>nanoseconds = Num 1000000000\<rparr>
   \<and> fromSecs (Num 5) = Inr \<lparr>nanoseconds = Num 5000000000\<rparr>
   \<and> valid_Duration \<lparr>nanoseconds = Num 1000000000\<rparr>
   \<and> valid_Duration \<lparr>nanoseconds = Num 5000000000\<rparr>
   \<and> sub \<lparr>nanoseconds = Num 1000000000\<rparr> \<lparr>nanoseconds = Num 5000000000\<rparr>
       = Inr \<lparr>nanoseconds = Num 0\<rparr>
   \<and> isZero \<lparr>nanoseconds = Num 0\<rparr>"
proof -
  have v1: "valid_Duration \<lparr>nanoseconds = Num 1000000000\<rparr>" by simp
  have v5: "valid_Duration \<lparr>nanoseconds = Num 5000000000\<rparr>" by simp
  obtain d where d: "sub \<lparr>nanoseconds = Num 1000000000\<rparr> \<lparr>nanoseconds = Num 5000000000\<rparr> = Inr d"
    "nanoseconds d = Num 0"
    using C3_sub_saturates[OF v1 v5] by auto
  have "d = \<lparr>nanoseconds = Num 0\<rparr>" using d(2) by (cases d) simp
  then show ?thesis using d(1) v1 v5 fromSecs_1 fromSecs_5
    by (simp add: isZero_def js_eq_def)
qed

subsection \<open>The error for a value that is not finite\<close>

text \<open>
  Claim C4.  The error for a non-finite magnitude ("Value must be finite") is stated to be
  thrown exactly for a non-finite constructor input, an overflowing sum or product, and a
  non-finite divisor of \<^verbatim>\<open>div\<close> or factor of \<^verbatim>\<open>mul\<close>.  A divisor of \<open>Infinity\<close> is not
  finite, yet \<^verbatim>\<open>div\<close> throws nothing for it: one second divided by \<open>Infinity\<close> is the zero
  duration.
\<close>

theorem C4_counterexample:
  "fromSecs (Num 1) = Inr \<lparr>nanoseconds = Num 1000000000\<rparr>
   \<and> \<not> isFinite PosInf
   \<and> div_by \<lparr>nanoseconds = Num 1000000000\<rparr> PosInf = Inr \<lparr>nanoseconds = Num 0\<rparr>"
  by (simp add: fromSecs_1 div_by_def js_eq_def js_div_def zero_of_def new_Duration_Num)

text \<open>
  Claim C4, amended.  An operation throws "Value must be finite" exactly when the value it
  hands to the validator is not finite: a constructor when its input is not finite or the
  scaled input overflows; \<^verbatim>\<open>add\<close> when the sum overflows; \<^verbatim>\<open>mul\<close> when the factor is not
  finite or the product overflows; \<^verbatim>\<open>div\<close> when the divisor is not-a-number, or is finite
  and not zero and the quotient overflows.  An infinite divisor gives the zero duration
  without an error, \<^verbatim>\<open>sub\<close> always returns a duration, and \<^verbatim>\<open>clamp\<close> never throws this
  error.
\<close>

theorem C4_finite_value_error:
  assumes "valid_Duration a" "valid_Duration b" "valid_Duration mn" "valid_Duration mx"
  shows "(fromNanos x = Inl (RangeError ''Value must be finite'') \<longleftrightarrow> \<not> isFinite x)
       \<and> (fromMicros x = Inl (RangeError ''Value must be finite'')
            \<longleftrightarrow> \<not> isFinite x \<or> overflows (val x * 1000))
       \<and> (fromMillis x = Inl (RangeError ''Value must be finite'')
            \<longleftrightarrow> \<not> isFinite x \<or> overflows (val x * 1000000))
       \<and> (fromSecs x = Inl (RangeError ''Value must be finite'')
            \<longleftrightarrow> \<not> isFinite x \<or> overflows (val x * 1000000000))
       \<and> (fromMinutes x = Inl (RangeError ''Value must be finite'')
            \<longleftrightarrow> \<not> isFinite x \<or> overflows (val x * 60000000000))
       \<and> (fromHours x = Inl (RangeError ''Value must be finite'')
            \<longleftrightarrow> \<not> isFinite x \<or> overflows (val x * 3600000000000))
       \<and> (add a b = Inl (RangeError ''Value must be finite'')
            \<longleftrightarrow> overflows (val (nanoseconds a) + val (nanoseconds b)))
       \<and> (\<exists>d. sub a b = Inr d)
       \<and> (mul a k = Inl (RangeError ''Value must be finite'')
            \<longleftrightarrow> \<not> isFinite k \<or> overflows (val (nanoseconds a) * val k))
       \<and> (div_by a k = Inl (RangeError ''Value must be finite'')
            \<longleftrightarrow> k = NaN \<or> isFinite k \<and> val k \<noteq> 0 \<and> overflows (val (nanoseconds a) / val k))
       \<and> (is_inf k \<longrightarrow> div_by a k = Inr \<lparr>nanoseconds = Num 0\<rparr>)
       \<and> clamp a mn mx \<noteq> Inl (RangeError ''Value must be finite'')"
proof -
  obtain ra rb where a: "nanoseconds a = Num ra" "0 \<le> ra" "is_double ra"
    and b: "nanoseconds b = Num rb" "0 \<le> rb" "is_double rb"
    using assms by (auto simp: valid_Duration_iff)
  have ctor: "fromNanos x = Inl (RangeError ''Value must be finite'') \<longleftrightarrow> \<not> isFinite x"
    "fromMicros x = Inl (RangeError ''Value must be finite'')
       \<longleftrightarrow> \<not> isFinite x \<or> overflows (val x * 1000)"
    "fromMillis x = Inl (RangeError ''Value must be finite'')
       \<longleftrightarrow> \<not> isFinite x \<or> overflows (val x * 1000000)"
    "fromSecs x = Inl (RangeError ''Value must be finite'')
       \<longleftrightarrow> \<not> isFinite x \<or> overflows (val x * 1000000000)"
    "fromMinutes x = Inl (RangeError ''Value must be finite'')
       \<longleftrightarrow> \<not> isFinite x \<or> overflows (val x * 60000000000)"
    "fromHours x = Inl (RangeError ''Value must be finite'')
       \<longleftrightarrow> \<not> isFinite x \<or> overflows (val x * 3600000000000)"
    by (auto simp: fromNanos_def fromMicros_def fromMillis_def fromSecs_def fromMinutes_def
          fromHours_def new_Duration_error isFinite_js_mul val_NS_PER)
  have add: "add a b = Inl (RangeError ''Value must be finite'')
               \<longleftrightarrow> overflows (val (nanoseconds a) + val (nanoseconds b))"
    by (simp add: add_def new_Duration_error isFinite_js_add a(1) b(1))
  have sub: "\<exists>d. sub a b = Inr d"
  proof -
    have "\<bar>ra - rb\<bar> \<le> MAX_VALUE"
      using is_double_bound[OF a(3)] is_double_bound[OF b(3)] a(2) b(2) by simp
    then have "isFinite (js_sub (Num ra) (Num rb))"
      by (simp add: js_sub_Num isFinite_round_to_double not_overflows_le)
    then show ?thesis
      by (cases "sub a b") (auto simp: sub_def a(1) b(1) new_Duration_error)
  qed
  have mul: "mul a k = Inl (RangeError ''Value must be finite'')
               \<longleftrightarrow> \<not> isFinite k \<or> overflows (val (nanoseconds a) * val k)"
    by (auto simp: mul_def new_Duration_error isFinite_js_mul a(1))
  have div: "div_by a k = Inl (RangeError ''Value must be finite'')
               \<longleftrightarrow> k = NaN \<or> isFinite k \<and> val k \<noteq> 0 \<and> overflows (val (nanoseconds a) / val k)"
    by (cases k)
       (auto simp: div_by_def new_Duration_error isFinite_js_div a(1) js_eq_def)
  have dinf: "is_inf k \<longrightarrow> div_by a k = Inr \<lparr>nanoseconds = Num 0\<rparr>"
    using a(2)
    by (cases k) (auto simp: div_by_def js_eq_def js_div_def a(1) new_Duration_nonpos)
  have clamp: "clamp a mn mx \<noteq> Inl (RangeError ''Value must be finite'')"
  proof -
    obtain lo hi where "nanoseconds mn = Num lo" "nanoseconds mx = Num hi"
      using assms(3,4) by (auto simp: valid_Duration_iff)
    then show ?thesis
      by (simp add: clamp_def a(1) Math_max_Num Math_min_Num new_Duration_Num)
  qed
  from ctor add sub mul div dinf clamp show ?thesis by simp
qed

theorem C4_finite_value_error_witness:
  "valid_Duration \<lparr>nanoseconds = Num (2 ^ 1023)\<rparr>
   \<and> overflows (2 ^ 1000 * 1000000000)
   \<and> fromSecs (Num (2 ^ 1000)) = Inl (RangeError ''Value must be finite'')
   \<and> overflows (2 ^ 1023 + 2 ^ 1023)
   \<and> add \<lparr>nanoseconds = Num (2 ^ 1023)\<rparr> \<lparr>nanoseconds = Num (2 ^ 1023)\<rparr>
        = Inl (RangeError ''Value must be finite'')
   \<and> mul \<lparr>nanoseconds = Num (2 ^ 1023)\<rparr> PosInf = Inl (RangeError ''Value must be finite'')
   \<and> is_inf PosInf
   \<and> div_by \<lparr>nanoseconds = Num (2 ^ 1023)\<rparr> PosInf = Inr \<lparr>nanoseconds = Num 0\<rparr>"
proof -
  let ?a = "\<lparr>nanoseconds = Num (2 ^ 1023)\<rparr>"
  note t = C4_finite_value_error[OF valid_pow2_1023 valid_pow2_1023 valid_pow2_1023
      valid_pow2_1023, of "Num (2 ^ 1000)" PosInf]
  have o1: "overflows (2 ^ 1000 * 1000000000)" by (simp add: overflows_def)
  have o2: "overflows (2 ^ 1023 + 2 ^ 1023)" by (simp add: overflows_def)
  have 1: "fromSecs (Num (2 ^ 1000)) = Inl (RangeError ''Value must be finite'')"
    using t o1 by simp
  have 2: "add ?a ?a = Inl (RangeError ''Value must be finite'')"
    using t o2 by simp
  have 3: "mul ?a PosInf = Inl (RangeError ''Value must be finite'')"
    using t by simp
  have 4: "div_by ?a PosInf = Inr \<lparr>nanoseconds = Num 0\<rparr>"
    using t by simp
  from valid_pow2_1023 o1 o2 1 2 3 4 show ?thesis by simp
qed

subsection \<open>Division\<close>

text \<open>
  Claim C5.  \<^verbatim>\<open>d.div(k)\<close> is stated to return the zero duration, without an error, for
  every finite negative divisor.  For the duration of \<open>2^1000\<close> ns and the divisor
  \<open>-2^(-100)\<close> the quotient overflows to \<open>-Infinity\<close>, which the validator rejects.
\<close>

theorem C5_counterexample:
  "fromNanos (Num (2 ^ 1000)) = Inr \<lparr>nanoseconds = Num (2 ^ 1000)\<rparr>
   \<and> valid_Duration \<lparr>nanoseconds = Num (2 ^ 1000)\<rparr>
   \<and> is_number (Num (- (1 / 2 ^ 100)))
   \<and> isFinite (Num (- (1 / 2 ^ 100)))
   \<and> js_lt (Num (- (1 / 2 ^ 100))) (Num 0)
   \<and> div_by \<lparr>nanoseconds = Num (2 ^ 1000)\<rparr> (Num (- (1 / 2 ^ 100)))
        = Inl (RangeError ''Value must be finite'')"
  using valid_pow2_1000 is_double_neg_pow2_100
  by (simp add: fromNanos_def new_Duration_Num div_by_def js_div_overflow_example[simplified]
      new_Duration_not_finite)

text \<open>
  Claim C5, amended.  \<^verbatim>\<open>d.div(k)\<close> throws "Division by zero" exactly when \<open>k\<close> is zero
  (positive or negative), and does so for every receiver, before the quotient is computed;
  for a finite negative divisor the result is the zero duration, without an error, unless
  the quotient overflows, in which case "Value must be finite" is thrown; for every divisor
  that is not zero the result is the validated quotient.
\<close>

theorem C5_div:
  assumes "valid_Duration d"
  shows "(js_eq k (Num 0) \<longrightarrow> (\<forall>d'. div_by d' k = Inl (RangeError ''Division by zero'')))
       \<and> (div_by d k = Inl (RangeError ''Division by zero'') \<longleftrightarrow> js_eq k (Num 0))
       \<and> (js_eq k (Num 0) \<longleftrightarrow> k = Num 0 \<or> k = NegZero)
       \<and> (isFinite k \<and> js_lt k (Num 0) \<longrightarrow>
            div_by d k =
              (if overflows (val (nanoseconds d) / val k)
               then Inl (RangeError ''Value must be finite'')
               else Inr \<lparr>nanoseconds = Num 0\<rparr>))
       \<and> (\<not> js_eq k (Num 0) \<longrightarrow> div_by d k = new_Duration (js_div (nanoseconds d) k))"
proof -
  obtain a where a: "nanoseconds d = Num a" "0 \<le> a"
    using assms by (auto simp: valid_Duration_iff)
  have 1: "js_eq k (Num 0) \<longrightarrow> (\<forall>d'. div_by d' k = Inl (RangeError ''Division by zero''))"
    by (simp add: div_by_def)
  have 2: "div_by d k = Inl (RangeError ''Division by zero'') \<longleftrightarrow> js_eq k (Num 0)"
    by (auto simp: div_by_def new_Duration_error)
  have 4: "div_by d k =
              (if overflows (val (nanoseconds d) / val k)
               then Inl (RangeError ''Value must be finite'')
               else Inr \<lparr>nanoseconds = Num 0\<rparr>)"
    if k: "isFinite k" "js_lt k (Num 0)"
  proof -
    have neg: "val k < 0" using k by (cases k) (auto simp: js_lt_def)
    then have nz: "\<not> js_eq k (Num 0)" by (auto simp: js_eq_zero_iff)
    have ni: "\<not> is_inf k" using k(1) by (cases k) auto
    show ?thesis
    proof (cases "overflows (a / val k)")
      case True
      then have "\<not> isFinite (js_div (Num a) k)" using ni by (simp add: isFinite_js_div)
      then show ?thesis using True nz a(1) by (simp add: div_by_def new_Duration_not_finite)
    next
      case False
      then show ?thesis
        using val_js_div_nonpos[OF a(2) k(1) neg False] nz a(1)
        by (simp add: div_by_def new_Duration_nonpos)
    qed
  qed
  have 5: "\<not> js_eq k (Num 0) \<longrightarrow> div_by d k = new_Duration (js_div (nanoseconds d) k)"
    by (simp add: div_by_def)
  from 1 2 4 5 show ?thesis by (simp add: js_eq_zero_iff)
qed

theorem C5_div_witness:
  "valid_Duration \<lparr>nanoseconds = Num 1000000000\<rparr>
   \<and> js_eq (Num 0) (Num 0)
   \<and> div_by \<lparr>nanoseconds = Num 1000000000\<rparr> (Num 0) = Inl (RangeError ''Division by zero'')
   \<and> isFinite (Num (- 1)) \<and> js_lt (Num (- 1)) (Num 0)
   \<and> div_by \<lparr>nanoseconds = Num 1000000000\<rparr> (Num (- 1)) = Inr \<lparr>nanoseconds = Num 0\<rparr>
   \<and> \<not> js_eq (Num 2) (Num 0)
   \<and> div_by \<lparr>nanoseconds = Num 1000000000\<rparr> (Num 2) = Inr \<lparr>nanoseconds = Num 500000000\<rparr>"
proof -
  have v: "valid_Duration \<lparr>nanoseconds = Num 1000000000\<rparr>" by simp
  have z: "div_by \<lparr>nanoseconds = Num 1000000000\<rparr> (Num 0) = Inl (RangeError ''Division by zero'')"
    using C5_div[OF v, of "Num 0"] by simp
  have n: "div_by \<lparr>nanoseconds = Num 1000000000\<rparr> (Num (- 1)) = Inr \<lparr>nanoseconds = Num 0\<rparr>"
    using C5_div[OF v, of "Num (- 1)"] by (simp add: overflows_def)
  have "div_by \<lparr>nanoseconds = Num 1000000000\<rparr> (Num 2)
          = new_Duration (js_div (nanoseconds \<lparr>nanoseconds = Num 1000000000\<rparr>) (Num 2))"
    using C5_div[OF v, of "Num 2"] by simp
  then have p: "div_by \<lparr>nanoseconds = Num 1000000000\<rparr> (Num 2)
                  = Inr \<lparr>nanoseconds = Num 500000000\<rparr>"
    by (simp add: js_div_def new_Duration_Num)
  from v z n p show ?thesis by simp
qed

subsection \<open>Round trips through a unit\<close>

text \<open>
  Claim C6.  For every finite \<open>x \<ge> 0\<close>, \<^verbatim>\<open>fromSecs(x).asSecs()\<close> is stated to equal \<open>x\<close>
  (within floating-point precision) and \<^verbatim>\<open>fromMillis(x).asSecs()\<close> to equal \<open>x / 1000\<close>.
  For the finite value \<open>2^1010\<close> both constructors throw, since the scaled value overflows,
  and there is no duration to observe.
\<close>

theorem C6_counterexample:
  "is_double (2 ^ 1010) \<and> isFinite (Num (2 ^ 1010)) \<and> js_ge (Num (2 ^ 1010)) (Num 0)
   \<and> fromSecs (Num (2 ^ 1010)) = Inl (RangeError ''Value must be finite'')
   \<and> fromMillis (Num (2 ^ 1010)) = Inl (RangeError ''Value must be finite'')"
proof -
  have "\<not> isFinite (js_mul (Num (2 ^ 1010)) NS_PER_SECOND)"
    by (simp add: isFinite_js_mul val_NS_PER overflows_def)
  then have 1: "fromSecs (Num (2 ^ 1010)) = Inl (RangeError ''Value must be finite'')"
    unfolding fromSecs_def by (rule new_Duration_not_finite)
  have "\<not> isFinite (js_mul (Num (2 ^ 1010)) NS_PER_MILLI)"
    by (simp add: isFinite_js_mul val_NS_PER overflows_def)
  then have 2: "fromMillis (Num (2 ^ 1010)) = Inl (RangeError ''Value must be finite'')"
    unfolding fromMillis_def by (rule new_Duration_not_finite)
  have 3: "js_ge (Num (2 ^ 1010)) (Num 0)" by (simp add: js_ge_zero)
  from 1 2 3 is_double_pow2_1010 show ?thesis by simp
qed

text \<open>
  Within the range of the constructors the results are close but not always equal: two
  values whose round trip is off by one unit in the last place.
\<close>

lemma secs_inexact:
  "is_double (7178117554471591 / 8796093022208)
   \<and> fromSecs (Num (7178117554471591 / 8796093022208))
       = Inr \<lparr>nanoseconds = Num (1671285730430761 / 2048)\<rparr>
   \<and> asSecs \<lparr>nanoseconds = Num (1671285730430761 / 2048)\<rparr>
       = Num (3589058777235795 / 4398046511104)
   \<and> \<not> js_eq (Num (3589058777235795 / 4398046511104)) (Num (7178117554471591 / 8796093022208))"
proof -
  have d: "is_double (7178117554471591 / 8796093022208)"
    using is_double_repr[of 7178117554471591 "- 43"]
    by (simp add: MAX_VALUE_def power_int_minus_divide)
  have m: "round_to_double (7178117554471591 / 8796093022208 * 1000000000)
             = Num (1671285730430761 / 2048)"
    by (simp add: round_to_double_pos_eval[where k = 39] power_int_minus_divide
        round_half_even_def MAX_VALUE_def)
  have q: "round_to_double (1671285730430761 / 2048 / 1000000000)
             = Num (3589058777235795 / 4398046511104)"
    by (simp add: round_to_double_pos_eval[where k = 9] power_int_minus_divide
        round_half_even_def MAX_VALUE_def)
  show ?thesis
    using d m q
    by (simp add: fromSecs_def asSecs_def NS_PER_SECOND_def js_mul_def js_div_def
        new_Duration_Num)
qed

lemma millis_inexact:
  "is_double (1351079888211149 / 4503599627370496)
   \<and> fromMillis (Num (1351079888211149 / 4503599627370496))
       = Inr \<lparr>nanoseconds = Num (5153960755200001 / 17179869184)\<rparr>
   \<and> asSecs \<lparr>nanoseconds = Num (5153960755200001 / 17179869184)\<rparr>
       = Num (5534023222112867 / 18446744073709551616)
   \<and> js_div (Num (1351079888211149 / 4503599627370496)) (Num 1000)
       = Num (2767011611056433 / 9223372036854775808)
   \<and> \<not> js_eq (Num (5534023222112867 / 18446744073709551616))
            (Num (2767011611056433 / 9223372036854775808))"
proof -
  have d: "is_double (1351079888211149 / 4503599627370496)"
    using is_double_repr[of 1351079888211149 "- 52"]
    by (simp add: MAX_VALUE_def power_int_minus_divide)
  have m: "round_to_double (1351079888211149 / 4503599627370496 * 1000000)
             = Num (5153960755200001 / 17179869184)"
    by (simp add: round_to_double_pos_eval[where k = 18] power_int_minus_divide
        round_half_even_def MAX_VALUE_def)
  have q: "round_to_double (5153960755200001 / 17179869184 / 1000000000)
             = Num (5534023222112867 / 18446744073709551616)"
    by (simp add: round_to_double_pos_eval[where k = "- 12"] power_int_minus_divide
        round_half_even_def MAX_VALUE_def)
  have w: "round_to_double (1351079888211149 / 4503599627370496 / 1000)
             = Num (2767011611056433 / 9223372036854775808)"
    by (simp add: round_to_double_pos_eval[where k = "- 12"] power_int_minus_divide
        round_half_even_def MAX_VALUE_def)
  show ?thesis
    using d m q w
    by (simp add: fromMillis_def asSecs_def NS_PER_SECOND_def NS_PER_MILLI_def js_mul_def
        js_div_def new_Duration_Num)
qed

text \<open>
  Claim C6, amended.  For every \<open>x \<ge> 0\<close> such that \<open>x * 10^9\<close> does not overflow,
  \<^verbatim>\<open>fromSecs(x)\<close> returns a duration and \<^verbatim>\<open>fromSecs(x).asSecs()\<close> differs from \<open>x\<close> by at
  most \<open>x * (2^-52 + 2^-106) + 2^-1074\<close>, the error of two correctly rounded operations; it
  is \<open>x\<close> itself when \<open>x\<close> and \<open>x * 10^9\<close> are both binary64 values.  For every \<open>x \<ge> 0\<close>
  such that \<open>x * 10^6\<close> does not overflow, \<^verbatim>\<open>fromMillis(x).asSecs()\<close> differs from the
  real number \<open>x / 1000\<close> by at most \<open>(x / 1000) * (2^-52 + 2^-106) + 2^-1074\<close>.  When the
  scaled value overflows, the constructor throws "Value must be finite".
\<close>

theorem C6_roundtrip:
  assumes "0 \<le> x"
  shows "(\<not> overflows (x * 1000000000) \<longrightarrow>
            (\<exists>d z. fromSecs (Num x) = Inr d \<and> asSecs d = Num z
               \<and> \<bar>z - x\<bar> \<le> x * (1 / 2 ^ 52 + 1 / 2 ^ 106) + 1 / 2 ^ 1074))
       \<and> (is_double x \<and> is_double (x * 1000000000) \<longrightarrow>
            (\<exists>d. fromSecs (Num x) = Inr d \<and> asSecs d = Num x))
       \<and> (overflows (x * 1000000000) \<longrightarrow>
            fromSecs (Num x) = Inl (RangeError ''Value must be finite''))
       \<and> (\<not> overflows (x * 1000000) \<longrightarrow>
            (\<exists>d z. fromMillis (Num x) = Inr d \<and> asSecs d = Num z
               \<and> \<bar>z - x / 1000\<bar> \<le> (x / 1000) * (1 / 2 ^ 52 + 1 / 2 ^ 106) + 1 / 2 ^ 1074))
       \<and> (overflows (x * 1000000) \<longrightarrow>
            fromMillis (Num x) = Inl (RangeError ''Value must be finite''))"
proof -
  have secs: "\<exists>d z. fromSecs (Num x) = Inr d \<and> asSecs d = Num z
               \<and> \<bar>z - x\<bar> \<le> x * (1 / 2 ^ 52 + 1 / 2 ^ 106) + 1 / 2 ^ 1074"
    if no: "\<not> overflows (x * 1000000000)"
  proof -
    obtain y z where yz: "js_mul (Num x) (Num 1000000000) = Num y" "0 \<le> y"
      "js_div (Num y) (Num 1000000000) = Num z"
      "\<bar>z - x * 1000000000 / 1000000000\<bar>
         \<le> (x * 1000000000 / 1000000000) * (1 / 2 ^ 52 + 1 / 2 ^ 106) + 1 / 2 ^ 1074"
      using scale_roundtrip[OF assms _ _ no, of 1000000000] by auto
    have "fromSecs (Num x) = Inr \<lparr>nanoseconds = Num y\<rparr>"
      using yz(1,2) by (simp add: fromSecs_def NS_PER_SECOND_def new_Duration_Num max_def)
    moreover have "asSecs \<lparr>nanoseconds = Num y\<rparr> = Num z"
      using yz(3) by (simp add: asSecs_def NS_PER_SECOND_def)
    moreover have "\<bar>z - x\<bar> \<le> x * (1 / 2 ^ 52 + 1 / 2 ^ 106) + 1 / 2 ^ 1074"
      using yz(4) by simp
    ultimately show ?thesis by blast
  qed
  have exact: "\<exists>d. fromSecs (Num x) = Inr d \<and> asSecs d = Num x"
    if d: "is_double x" "is_double (x * 1000000000)"
  proof (cases "x = 0")
    case True
    then show ?thesis
      by (simp add: fromSecs_def asSecs_def NS_PER_SECOND_def js_mul_def js_div_def zero_of_def
          new_Duration_Num)
  next
    case False
    have m: "js_mul (Num x) (Num 1000000000) = Num (x * 1000000000)"
      using False d(2) by (simp add: js_mul_def is_double_def)
    have "js_div (Num (x * 1000000000)) (Num 1000000000) = Num x"
      using False d(1) by (simp add: js_div_def is_double_def)
    then show ?thesis
      using m assms by (simp add: fromSecs_def asSecs_def NS_PER_SECOND_def new_Duration_Num max_def)
  qed
  have millis: "\<exists>d z. fromMillis (Num x) = Inr d \<and> asSecs d = Num z
               \<and> \<bar>z - x / 1000\<bar> \<le> (x / 1000) * (1 / 2 ^ 52 + 1 / 2 ^ 106) + 1 / 2 ^ 1074"
    if no: "\<not> overflows (x * 1000000)"
  proof -
    obtain y z where yz: "js_mul (Num x) (Num 1000000) = Num y" "0 \<le> y"
      "js_div (Num y) (Num 1000000000) = Num z"
      "\<bar>z - x * 1000000 / 1000000000\<bar>
         \<le> (x * 1000000 / 1000000000) * (1 / 2 ^ 52 + 1 / 2 ^ 106) + 1 / 2 ^ 1074"
      using scale_roundtrip[OF assms _ _ no, of 1000000000] by auto
    have "fromMillis (Num x) = Inr \<lparr>nanoseconds = Num y\<rparr>"
      using yz(1,2) by (simp add: fromMillis_def NS_PER_MILLI_def new_Duration_Num max_def)
    moreover have "asSecs \<lparr>nanoseconds = Num y\<rparr> = Num z"
      using yz(3) by (simp add: asSecs_def NS_PER_SECOND_def)
    moreover have "\<bar>z - x / 1000\<bar> \<le> (x / 1000) * (1 / 2 ^ 52 + 1 / 2 ^ 106) + 1 / 2 ^ 1074"
      using yz(4) by simp
    ultimately show ?thesis by blast
  qed
  have over: "fromSecs (Num x) = Inl (RangeError ''Value must be finite'')"
    if "overflows (x * 1000000000)"
    using that by (simp add: fromSecs_def new_Duration_error isFinite_js_mul val_NS_PER)
  have over': "fromMillis (Num x) = Inl (RangeError ''Value must be finite'')"
    if "overflows (x * 1000000)"
    using that by (simp add: fromMillis_def new_Duration_error isFinite_js_mul val_NS_PER)
  from secs exact millis over over' show ?thesis by blast
qed

theorem C6_roundtrip_witness:
  "(0::rat) \<le> 5 \<and> \<not> overflows (5 * 1000000000) \<and> is_double 5 \<and> is_double (5 * 1000000000)
   \<and> fromSecs (Num 5) = Inr \<lparr>nanoseconds = Num 5000000000\<rparr>
   \<and> asSecs \<lparr>nanoseconds = Num 5000000000\<rparr> = Num 5
   \<and> (0::rat) \<le> 1500 \<and> \<not> overflows (1500 * 1000000)
   \<and> fromMillis (Num 1500) = Inr \<lparr>nanoseconds = Num 1500000000\<rparr>
   \<and> (\<exists>z. asSecs \<lparr>nanoseconds = Num 1500000000\<rparr> = Num z
          \<and> \<bar>z - 1500 / 1000\<bar> \<le> (1500 / 1000) * (1 / 2 ^ 52 + 1 / 2 ^ 106) + 1 / 2 ^ 1074)
   \<and> (0::rat) \<le> 2 ^ 1000 \<and> overflows (2 ^ 1000 * 1000000000)
   \<and> fromSecs (Num (2 ^ 1000)) = Inl (RangeError ''Value must be finite'')"
proof -
  have h5: "(0::rat) \<le> 5" and h1500: "(0::rat) \<le> 1500" and hbig: "(0::rat) \<le> 2 ^ 1000"
    by simp_all
  have n5: "\<not> overflows (5 * 1000000000)" and n1500: "\<not> overflows (1500 * 1000000)"
    and obig: "overflows (2 ^ 1000 * 1000000000)"
    by (simp_all add: overflows_def)
  have d5: "is_double 5" "is_double (5 * 1000000000)" by simp_all
  obtain d where d: "fromSecs (Num 5) = Inr d" "asSecs d = Num 5"
    using C6_roundtrip[OF h5] d5 by blast
  have a: "asSecs \<lparr>nanoseconds = Num 5000000000\<rparr> = Num 5"
    using d fromSecs_5 by simp
  obtain d' z where z: "fromMillis (Num 1500) = Inr d'" "asSecs d' = Num z"
    "\<bar>z - 1500 / 1000\<bar> \<le> (1500 / 1000) * (1 / 2 ^ 52 + 1 / 2 ^ 106) + 1 / 2 ^ 1074"
    using C6_roundtrip[OF h1500] n1500 by blast
  have b: "\<exists>z. asSecs \<lparr>nanoseconds = Num 1500000000\<rparr> = Num z
          \<and> \<bar>z - 1500 / 1000\<bar> \<le> (1500 / 1000) * (1 / 2 ^ 52 + 1 / 2 ^ 106) + 1 / 2 ^ 1074"
    using z fromMillis_1500 by auto
  have c: "fromSecs (Num (2 ^ 1000)) = Inl (RangeError ''Value must be finite'')"
    using C6_roundtrip[OF hbig] obig by blast
  from h5 h1500 hbig n5 n1500 obig d5 a b c fromSecs_5 fromMillis_1500 show ?thesis by blast
qed

subsection \<open>Clamping\<close>

text \<open>
  Claim C7.  For all durations \<open>d\<close>, \<open>min\<close> and \<open>max\<close>, \<^verbatim>\<open>d.clamp(min, max)\<close> throws a range
  error exactly when \<open>min\<close> is greater than \<open>max\<close> under the comparison \<^verbatim>\<open>gt\<close>; otherwise
  it returns the duration whose count is the count of \<open>d\<close> clamped into the inclusive interval
  from \<open>min\<close> to \<open>max\<close>.  In particular clamping five seconds between one and three
  seconds gives three seconds.
\<close>

theorem C7_clamp:
  assumes "valid_Duration d" "valid_Duration mn" "valid_Duration mx"
  shows "((\<exists>e. clamp d mn mx = Inl e) \<longleftrightarrow> gt mn mx)
       \<and> (gt mn mx \<longleftrightarrow> val (nanoseconds mx) < val (nanoseconds mn))
       \<and> (gt mn mx \<longrightarrow> clamp d mn mx = Inl (RangeError ''min must be <= max''))
       \<and> (\<not> gt mn mx \<longrightarrow>
            clamp d mn mx = Inr \<lparr>nanoseconds =
              Num (min (max (val (nanoseconds d)) (val (nanoseconds mn))) (val (nanoseconds mx)))\<rparr>
          \<and> val (nanoseconds mn)
               \<le> min (max (val (nanoseconds d)) (val (nanoseconds mn))) (val (nanoseconds mx))
          \<and> min (max (val (nanoseconds d)) (val (nanoseconds mn))) (val (nanoseconds mx))
               \<le> val (nanoseconds mx))"
proof -
  obtain r lo hi where "nanoseconds d = Num r" "0 \<le> r" "nanoseconds mn = Num lo" "0 \<le> lo"
    "nanoseconds mx = Num hi" "0 \<le> hi"
    using assms by (auto simp: valid_Duration_iff)
  then show ?thesis
    by (auto simp: clamp_def gt_def js_gt_def Math_max_Num Math_min_Num new_Duration_Num)
qed

theorem C7_clamp_witness:
  "valid_Duration \<lparr>nanoseconds = Num 5000000000\<rparr>
   \<and> valid_Duration \<lparr>nanoseconds = Num 1000000000\<rparr>
   \<and> valid_Duration \<lparr>nanoseconds = Num 3000000000\<rparr>
   \<and> \<not> gt \<lparr>nanoseconds = Num 1000000000\<rparr> \<lparr>nanoseconds = Num 3000000000\<rparr>
   \<and> clamp \<lparr>nanoseconds = Num 5000000000\<rparr> \<lparr>nanoseconds = Num 1000000000\<rparr>
        \<lparr>nanoseconds = Num 3000000000\<rparr> = Inr \<lparr>nanoseconds = Num 3000000000\<rparr>
   \<and> asSecs \<lparr>nanoseconds = Num 3000000000\<rparr> = Num 3
   \<and> gt \<lparr>nanoseconds = Num 3000000000\<rparr> \<lparr>nanoseconds = Num 1000000000\<rparr>
   \<and> clamp \<lparr>nanoseconds = Num 5000000000\<rparr> \<lparr>nanoseconds = Num 3000000000\<rparr>
        \<lparr>nanoseconds = Num 1000000000\<rparr> = Inl (RangeError ''min must be <= max'')"
proof -
  have v5: "valid_Duration \<lparr>nanoseconds = Num 5000000000\<rparr>" by simp
  have v1: "valid_Duration \<lparr>nanoseconds = Num 1000000000\<rparr>" by simp
  have v3: "valid_Duration \<lparr>nanoseconds = Num 3000000000\<rparr>" by simp
  have g: "gt \<lparr>nanoseconds = Num 3000000000\<rparr> \<lparr>nanoseconds = Num 1000000000\<rparr>"
    by (simp add: gt_def js_gt_def)
  have ng: "\<not> gt \<lparr>nanoseconds = Num 1000000000\<rparr> \<lparr>nanoseconds = Num 3000000000\<rparr>"
    by (simp add: gt_def js_gt_def)
  have ok: "clamp \<lparr>nanoseconds = Num 5000000000\<rparr> \<lparr>nanoseconds = Num 1000000000\<rparr>
        \<lparr>nanoseconds = Num 3000000000\<rparr> = Inr \<lparr>nanoseconds = Num 3000000000\<rparr>"
    using C7_clamp[OF v5 v1 v3] ng by simp
  have err: "clamp \<lparr>nanoseconds = Num 5000000000\<rparr> \<lparr>nanoseconds = Num 3000000000\<rparr>
        \<lparr>nanoseconds = Num 1000000000\<rparr> = Inl (RangeError ''min must be <= max'')"
    using C7_clamp[OF v5 v3 v1] g by simp
  have secs: "asSecs \<lparr>nanoseconds = Num 3000000000\<rparr> = Num 3"
    by (simp add: asSecs_def NS_PER_SECOND_def js_div_def is_zero_def)
  from v5 v1 v3 g ng ok err secs show ?thesis by simp
qed

subsection \<open>Display: unit selection and rounding\<close>

text \<open>
  Claim C8.  \<^verbatim>\<open>toString\<close> is a total function that scans the units hour, minute, second,
  millisecond, microsecond in this order, takes the first whose scale factor divides the
  count with remainder zero, falls back to nanoseconds when none does, rounds the chosen
  magnitude to 6 decimal places when it is not an integer, and appends the unit's short
  code.  The source selects the unit as described (\<open>toString_unit_branches\<close>), and agrees
  with the description whenever a unit divides the count or the count is an integer
  (\<open>toString_refines\<close>).  Its fallback does not round: for the count 1/128 ns (0.0078125,
  which no unit divides) it interpolates the raw count and prints seven decimals, where the
  description, like the local function \<^verbatim>\<open>round\<close> that the five other branches call, gives
  0.007813.  In those five branches the magnitude is always an integer
  (\<open>unit_magnitude_integer\<close>), so on the durations of the type no output of the source is
  ever rounded (\<open>toString_never_rounds\<close>).
\<close>

theorem C8_fallback_not_rounded:
  "fromNanos (Num (1 / 128)) = Inr \<lparr>nanoseconds = Num (1 / 128)\<rparr>
   \<and> chosen_unit \<lparr>nanoseconds = Num (1 / 128)\<rparr> = None
   \<and> \<not> isInteger (Num (1 / 128))
   \<and> toString \<lparr>nanoseconds = Num (1 / 128)\<rparr> = ''0.0078125ns''
   \<and> toString_spec \<lparr>nanoseconds = Num (1 / 128)\<rparr> = ''0.007813ns''"
  by (simp add: fromNanos_def new_Duration_Num toString_128 toString_spec_def chosen_unit_128
      round_n_128 Number_toString_007813 isInteger_def)

subsection \<open>Display of 1500 milliseconds\<close>

text \<open>
  Claim C9.  \<^verbatim>\<open>fromMillis(1500).toString()\<close> is stated to return \<^verbatim>\<open>1.5s\<close>.  The count
  is 1500000000 ns; the second does not divide it (the remainder is 500000000) and the
  millisecond does, so the string is \<^verbatim>\<open>1500ms\<close>.
\<close>

theorem C9_counterexample:
  "fromMillis (Num 1500) = Inr \<lparr>nanoseconds = Num 1500000000\<rparr>
   \<and> toString \<lparr>nanoseconds = Num 1500000000\<rparr> \<noteq> ''1.5s''"
  by (simp add: fromMillis_1500 toString_1500ms)

text \<open>
  Claim C9, amended.  \<^verbatim>\<open>fromMillis(1500).toString()\<close> returns \<^verbatim>\<open>1500ms\<close>: a duration of
  1500 milliseconds is displayed in milliseconds, the largest unit that divides its count.
\<close>

theorem C9_prints_1500ms:
  "fromMillis (Num 1500) = Inr \<lparr>nanoseconds = Num 1500000000\<rparr>
   \<and> js_mod (Num 1500000000) NS_PER_SECOND = Num 500000000
   \<and> js_mod (Num 1500000000) NS_PER_MILLI = Num 0
   \<and> toString \<lparr>nanoseconds = Num 1500000000\<rparr> = ''1500ms''"
  by (simp add: fromMillis_1500 toString_1500ms js_mod_1500ms)

subsection \<open>Display of zero\<close>

text \<open>
  Claim C10.  Every duration whose count is zero, among them \<^verbatim>\<open>Duration.ZERO\<close> and
  \<^verbatim>\<open>fromMillis(0)\<close>, is displayed as \<^verbatim>\<open>0h\<close>: zero leaves remainder zero for the hour,
  which is tested first.
\<close>

theorem C10_zero_prints_0h: "isZero d \<Longrightarrow> toString d = ''0h''"
proof -
  assume "isZero d"
  then consider "nanoseconds d = Num 0" | "nanoseconds d = NegZero" by (auto simp: isZero_iff)
  then show ?thesis
  proof cases
    case 1
    have m: "js_mod (Num 0) NS_PER_HOUR = Num 0"
      by (simp add: js_mod_def NS_PER_HOUR_eq is_zero_def)
    have h: "asHours d = Num 0"
      by (simp add: asHours_def 1 js_div_def NS_PER_HOUR_eq is_zero_def zero_of_def)
    show ?thesis by (simp add: toString_def 1 m h round_n_def isInteger_def)
  next
    case 2
    have m: "js_mod NegZero NS_PER_HOUR = NegZero"
      by (simp add: js_mod_def NS_PER_HOUR_eq is_zero_def)
    have h: "asHours d = NegZero"
      by (simp add: asHours_def 2 js_div_def NS_PER_HOUR_eq is_zero_def zero_of_def)
    show ?thesis by (simp add: toString_def 2 m h round_n_def isInteger_def js_eq_def)
  qed
qed

theorem C10_zero_prints_0h_witness:
  "ZERO = Inr \<lparr>nanoseconds = Num 0\<rparr>
   \<and> fromMillis (Num 0) = Inr \<lparr>nanoseconds = Num 0\<rparr>
   \<and> isZero \<lparr>nanoseconds = Num 0\<rparr>
   \<and> toString \<lparr>nanoseconds = Num 0\<rparr> = ''0h''"
proof -
  have z: "isZero \<lparr>nanoseconds = Num 0\<rparr>" by (simp add: isZero_iff)
  from C10_zero_prints_0h[OF z] z ZERO_eq fromMillis_0 show ?thesis by simp
qed

end
